theory Spec2Isabelle
  imports Main "HOL-Library.AList"
begin

section \<open>Chunker (src/js/utils.js)\<close>

text \<open>
  A chunk as \<^verbatim>\<open>chunkText\<close> pushes it: the slice, its two offsets and the estimated
  token count. Offsets are JavaScript numbers; they are integers here, and \<open>start\<close>
  may become negative (the source computes \<^verbatim>\<open>end - overlapChars\<close> without a lower bound).
\<close>

record chunk =
  chunk_text :: string
  chunk_start :: int
  chunk_end :: int
  chunk_tokens :: int

text \<open>
  \<^verbatim>\<open>String.prototype.substring\<close>: both indices are clamped to \<open>[0, length]\<close> and swapped
  when the first is larger.
\<close>

definition substring :: "string \<Rightarrow> int \<Rightarrow> int \<Rightarrow> string" where
  "substring s a b =
     (let n = int (length s);
          a' = max 0 (min a n);
          b' = max 0 (min b n);
          lo = min a' b';
          hi = max a' b'
      in take (nat (hi - lo)) (drop (nat lo) s))"

text \<open>\<^verbatim>\<open>Math.ceil(text.length / 4)\<close>\<close>

definition estimateTokenCount :: "string \<Rightarrow> int" where
  "estimateTokenCount s = (int (length s) + 3) div 4"

text \<open>
  The \<^verbatim>\<open>while (start < text.length)\<close> loop of \<^verbatim>\<open>chunkText\<close>. Nothing in the source bounds
  the number of iterations, so the loop is a partial function: \<open>None\<close> means that the
  loop never exits (the call does not return).
\<close>

partial_function (option) chunkText_loop ::
  "string \<Rightarrow> int \<Rightarrow> int \<Rightarrow> int \<Rightarrow> chunk list \<Rightarrow> chunk list option" where
  "chunkText_loop tx batchChars overlapChars start chunks =
     (if start < int (length tx) then
        (let endPos = min (start + batchChars) (int (length tx));
             piece = substring tx start endPos;
             chunks' = chunks @ [\<lparr>chunk_text = piece, chunk_start = start,
                                  chunk_end = endPos,
                                  chunk_tokens = estimateTokenCount piece\<rparr>];
             start' = endPos - overlapChars;
             start'' = (if start' \<ge> endPos then endPos else start')
         in chunkText_loop tx batchChars overlapChars start'' chunks')
      else Some chunks)"

declare chunkText_loop.simps [code]

definition chunkText :: "string \<Rightarrow> int \<Rightarrow> int \<Rightarrow> chunk list option" where
  "chunkText tx batchSize overlapSize =
     chunkText_loop tx (batchSize * 4) (overlapSize * 4) 0 []"

section \<open>Completion client and retry policy (src/js/gemini-client.js)\<close>

text \<open>
  A thrown value: an \<^verbatim>\<open>Error\<close> with its message and its optional \<^verbatim>\<open>status\<close> property, or
  \<^verbatim>\<open>undefined\<close> (what \<^verbatim>\<open>throw lastError\<close> throws when no attempt was made).
\<close>

datatype error = Undefined | Error (err_message: string) (err_status: "nat option")

record response =
  resp_text :: string
  resp_model :: string
  resp_finishReason :: string

text \<open>
  What the remote service does with one \<^verbatim>\<open>fetch\<close>: after \<open>latency\<close> milliseconds either the
  network fails (\<^verbatim>\<open>fetch\<close> rejects) or a response arrives with an HTTP status. For a
  response that is not \<^verbatim>\<open>ok\<close>, \<open>errmsg\<close> is the message the code extracts from the body
  (or its default text). For an \<^verbatim>\<open>ok\<close> response the payload is a first candidate with text
  parts, a JSON document without one, or a body that \<^verbatim>\<open>response.json()\<close> rejects.
\<close>

datatype payload = Candidate string string | NoCandidate | BadJson string

datatype fetch_result = Responded nat string payload | NetworkFailure string

record reply =
  latency :: nat
  result :: fetch_result

text \<open>
  The service is a parameter: the reply to the \<open>n\<close>-th fetch of a run may depend on the
  model, the credential and the prompt sent.
\<close>

type_synonym backend = "nat \<Rightarrow> string \<Rightarrow> string \<Rightarrow> string \<Rightarrow> reply"

text \<open>The fields the constructor sets once and no method changes.\<close>

record config =
  apiKeys :: "string list"
  models :: "string list"
  timeout :: nat
  maxRetries :: nat
  retryDelay :: nat
  rateLimitDelay :: nat

text \<open>
  What one call can observe from outside: the waits (tagged by the place that calls
  \<^verbatim>\<open>sleep\<close>: the rate limiter or a backoff), the requests sent (index, model, credential)
  and the warning \<^verbatim>\<open>generateContent\<close> logs when it moves to the next model.
\<close>

datatype event =
    RateLimitWait nat
  | Backoff nat
  | Fetch nat string string
  | ModelFailed string

text \<open>
  The mutable fields of the client (\<^verbatim>\<open>currentKeyIndex\<close>, \<^verbatim>\<open>rateLimitState\<close>) and the
  world it runs in: the clock read by \<^verbatim>\<open>Date.now()\<close>, the number of fetches issued so far
  and the trace of events.
\<close>

record state =
  currentKeyIndex :: nat
  lastRequest :: int
  requestCount :: nat
  clock :: int
  fetches :: nat
  trace :: "event list"

definition sleep :: "(nat \<Rightarrow> event) \<Rightarrow> nat \<Rightarrow> state \<Rightarrow> state" where
  "sleep tag ms st = st\<lparr>clock := clock st + int ms, trace := trace st @ [tag ms]\<rparr>"

definition applyRateLimit :: "config \<Rightarrow> state \<Rightarrow> state" where
  "applyRateLimit cfg st =
     (let now = clock st;
          timeSinceLastRequest = now - lastRequest st
      in if timeSinceLastRequest < int (rateLimitDelay cfg)
         then sleep RateLimitWait (nat (int (rateLimitDelay cfg) - timeSinceLastRequest)) st
         else st)"

text \<open>The decimal digits of a number, as the template string prints \<^verbatim>\<open>this.timeout\<close>.\<close>

fun show_nat :: "nat \<Rightarrow> string" where
  "show_nat n =
     (if n < 10 then [''0123456789'' ! n]
      else show_nat (n div 10) @ [''0123456789'' ! (n mod 10)])"

declare show_nat.simps [simp del]

text \<open>
  \<^verbatim>\<open>makeRequest\<close>. Without a credential at the active index it throws before any fetch.
  The abort timer runs from the fetch to the arrival of the response: a reply that takes
  \<open>timeout\<close> milliseconds or more is aborted and becomes an error with status 408.
  \<^verbatim>\<open>rateLimitState\<close> is updated when a response has arrived, whatever its status.
\<close>

definition makeRequest ::
  "config \<Rightarrow> backend \<Rightarrow> string \<Rightarrow> string \<Rightarrow> state \<Rightarrow> (error + response) \<times> state" where
  "makeRequest cfg be model body st =
     (if \<not> (currentKeyIndex st < length (apiKeys cfg)) \<or> apiKeys cfg ! currentKeyIndex st = []
      then (Inl (Error ''No API key available'' None), st)
      else
        let apiKey = apiKeys cfg ! currentKeyIndex st;
            r = be (fetches st) model apiKey body;
            st1 = st\<lparr>fetches := fetches st + 1,
                      trace := trace st @ [Fetch (fetches st) model apiKey]\<rparr>
        in if timeout cfg \<le> latency r
           then (Inl (Error (''Request timeout after '' @ show_nat (timeout cfg) @ ''ms'')
                        (Some 408)),
                 st1\<lparr>clock := clock st1 + int (timeout cfg)\<rparr>)
           else
             let st2 = st1\<lparr>clock := clock st1 + int (latency r)\<rparr>
             in case result r of
                  NetworkFailure msg \<Rightarrow> (Inl (Error msg None), st2)
                | Responded status errmsg pl \<Rightarrow>
                    let st3 = st2\<lparr>lastRequest := clock st2,
                                   requestCount := requestCount st2 + 1\<rparr>
                    in if \<not> (200 \<le> status \<and> status \<le> 299)
                       then (Inl (Error errmsg (Some status)), st3)
                       else (case pl of
                               Candidate t fr \<Rightarrow>
                                 (Inr \<lparr>resp_text = t, resp_model = model,
                                       resp_finishReason = fr\<rparr>, st3)
                             | NoCandidate \<Rightarrow>
                                 (Inl (Error ''Invalid response format from API'' None), st3)
                             | BadJson msg \<Rightarrow> (Inl (Error msg None), st3)))"

text \<open>
  One iteration of the \<^verbatim>\<open>for\<close> loop of \<^verbatim>\<open>callWithRetry\<close>: it returns the response, rethrows
  the error, or goes on to the next iteration with the error as \<^verbatim>\<open>lastError\<close>.
\<close>

datatype attempt_result = Returned response | Thrown error | Continue error

definition status_in :: "error \<Rightarrow> nat \<Rightarrow> nat \<Rightarrow> bool" where
  "status_in e lo hi = (case e of Undefined \<Rightarrow> False
                        | Error m None \<Rightarrow> False
                        | Error m (Some s) \<Rightarrow> lo \<le> s \<and> s < hi)"

definition status_is :: "error \<Rightarrow> nat \<Rightarrow> bool" where
  "status_is e c = (case e of Undefined \<Rightarrow> False
                    | Error m None \<Rightarrow> False
                    | Error m (Some s) \<Rightarrow> s = c)"

definition attempt ::
  "config \<Rightarrow> backend \<Rightarrow> string \<Rightarrow> string \<Rightarrow> nat \<Rightarrow> state \<Rightarrow> attempt_result \<times> state" where
  "attempt cfg be model body retry st =
     (let st1 = applyRateLimit cfg st in
      case makeRequest cfg be model body st1 of
        (Inr resp, st2) \<Rightarrow>
          (Returned resp,
           if currentKeyIndex st2 \<noteq> 0 \<and> length (apiKeys cfg) > 1
           then st2\<lparr>currentKeyIndex := 0\<rparr> else st2)
      | (Inl err, st2) \<Rightarrow>
          if status_is err 429 then
            (if currentKeyIndex st2 = 0 \<and> length (apiKeys cfg) > 1
             then (Continue err, st2\<lparr>currentKeyIndex := 1\<rparr>)
             else (Continue err,
                   sleep Backoff (retryDelay cfg * 2 ^ retry + rateLimitDelay cfg) st2))
          else if status_in err 500 600 then
            (let st3 = (if currentKeyIndex st2 = 0 \<and> length (apiKeys cfg) > 1
                        then st2\<lparr>currentKeyIndex := 1\<rparr> else st2)
             in (Continue err, sleep Backoff (retryDelay cfg * 2 ^ retry) st3))
          else if status_in err 400 500 \<and> \<not> status_is err 429 then (Thrown err, st2)
          else (Continue err,
                if retry + 1 < maxRetries cfg
                then sleep Backoff (retryDelay cfg * 2 ^ retry) st2 else st2))"

function callWithRetry_loop ::
  "config \<Rightarrow> backend \<Rightarrow> string \<Rightarrow> string \<Rightarrow> nat \<Rightarrow> error \<Rightarrow> state \<Rightarrow> (error + response) \<times> state"
  where
  "callWithRetry_loop cfg be model body retry lastError st =
     (if retry < maxRetries cfg then
        (case attempt cfg be model body retry st of
           (Returned resp, st') \<Rightarrow> (Inr resp, st')
         | (Thrown err, st') \<Rightarrow> (Inl err, st')
         | (Continue err, st') \<Rightarrow> callWithRetry_loop cfg be model body (retry + 1) err st')
      else (Inl lastError, st))"
  by pat_completeness auto
termination
  by (relation "measure (\<lambda>(cfg, be, model, body, retry, lastError, st). maxRetries cfg - retry)")
    auto

declare callWithRetry_loop.simps [simp del]

definition callWithRetry ::
  "config \<Rightarrow> backend \<Rightarrow> string \<Rightarrow> string \<Rightarrow> state \<Rightarrow> (error + response) \<times> state" where
  "callWithRetry cfg be model body st = callWithRetry_loop cfg be model body 0 Undefined st"

definition buildRequestBody :: "string \<Rightarrow> string \<Rightarrow> string" where
  "buildRequestBody systemPrompt prompt =
     (if systemPrompt \<noteq> [] then systemPrompt @ [CHR 10, CHR 10] @ prompt else prompt)"

text \<open>
  \<^verbatim>\<open>generateContent\<close>. A model is missing when the index is past the list or the entry is
  the empty string (\<^verbatim>\<open>!model\<close>). The recursive call for the next model is made from the
  \<^verbatim>\<open>catch\<close> block, after the warning is logged.
\<close>

function generateContent ::
  "config \<Rightarrow> backend \<Rightarrow> string \<Rightarrow> string \<Rightarrow> nat \<Rightarrow> state \<Rightarrow> (error + response) \<times> state"
  where
  "generateContent cfg be systemPrompt prompt modelIndex st =
     (if \<not> (modelIndex < length (models cfg)) \<or> models cfg ! modelIndex = []
      then (Inl (Error ''No model available'' None), st)
      else
        (case callWithRetry cfg be (models cfg ! modelIndex)
                (buildRequestBody systemPrompt prompt) st of
           (Inr resp, st') \<Rightarrow> (Inr resp, st')
         | (Inl err, st') \<Rightarrow>
             if modelIndex + 1 < length (models cfg)
             then generateContent cfg be systemPrompt prompt (modelIndex + 1)
                    (st'\<lparr>trace := trace st' @ [ModelFailed (models cfg ! modelIndex)]\<rparr>)
             else (Inl err, st')))"
  by pat_completeness auto
termination
  by (relation "measure (\<lambda>(cfg, be, systemPrompt, prompt, modelIndex, st).
                  length (models cfg) - modelIndex)") auto

declare generateContent.simps [simp del]

text \<open>Readings of a trace.\<close>

fun fetched_models :: "event list \<Rightarrow> string list" where
  "fetched_models [] = []"
| "fetched_models (Fetch n m k # es) = m # fetched_models es"
| "fetched_models (e # es) = fetched_models es"

fun backoffs :: "event list \<Rightarrow> nat list" where
  "backoffs [] = []"
| "backoffs (Backoff ms # es) = ms # backoffs es"
| "backoffs (e # es) = backoffs es"

fun failovers :: "event list \<Rightarrow> string list" where
  "failovers [] = []"
| "failovers (ModelFailed m # es) = m # failovers es"
| "failovers (e # es) = failovers es"

text \<open>
  Vocabulary for statements about the service: the reply is an HTTP response with a
  5xx status that arrives before the abort timer fires; the error \<^verbatim>\<open>makeRequest\<close> throws
  for a failed response.
\<close>

definition server_error_reply :: "config \<Rightarrow> reply \<Rightarrow> bool" where
  "server_error_reply cfg r =
     (latency r < timeout cfg \<and>
      (case result r of
         Responded s msg pl \<Rightarrow> 500 \<le> s \<and> s < 600
       | NetworkFailure msg \<Rightarrow> False))"

definition reply_error :: "reply \<Rightarrow> error" where
  "reply_error r =
     (case result r of
        Responded s msg pl \<Rightarrow> Error msg (Some s)
      | NetworkFailure msg \<Rightarrow> Error msg None)"

definition timeout_error :: "config \<Rightarrow> error" where
  "timeout_error cfg =
     Error (''Request timeout after '' @ show_nat (timeout cfg) @ ''ms'') (Some 408)"

definition no_key_error :: error where
  "no_key_error = Error ''No API key available'' None"

definition no_model_error :: error where
  "no_model_error = Error ''No model available'' None"

text \<open>The waits of the generic backoff branch over one full retry loop.\<close>

definition generic_backoffs :: "config \<Rightarrow> nat \<Rightarrow> nat list" where
  "generic_backoffs cfg retry = map (\<lambda>r. retryDelay cfg * 2 ^ r) [retry..<maxRetries cfg - 1]"

section \<open>Rate limiter under several workers\<close>

text \<open>
  The time at which \<^verbatim>\<open>applyRateLimit\<close> lets its caller go on, for a caller that enters at
  \<open>now\<close> and reads \<open>lastReq\<close>.
\<close>

definition slot :: "nat \<Rightarrow> int \<Rightarrow> int \<Rightarrow> int" where
  "slot delay lastReq now =
     (if now - lastReq < int delay then now + (int delay - (now - lastReq)) else now)"

text \<open>
  Workers of the batch processor share one client. JavaScript runs every synchronous
  section to its end, so a call of \<^verbatim>\<open>applyRateLimit\<close> reads the clock and
  \<^verbatim>\<open>rateLimitState.lastRequest\<close> in one step and then only waits; the single writer of
  \<^verbatim>\<open>lastRequest\<close> is \<^verbatim>\<open>makeRequest\<close>, when a response has arrived. A history of the
  shared limiter is therefore a list of two kinds of events, in the order of time: worker
  \<open>w\<close> enters \<^verbatim>\<open>applyRateLimit\<close> at time \<open>t\<close>, or a response arrives at time \<open>t\<close>.
  \<open>limiter_run\<close> gives, for every entering worker, the time at which it dispatches its
  request.
\<close>

datatype limiter_event = Arrive nat int | ResponseArrived int

fun limiter_run :: "config \<Rightarrow> state \<Rightarrow> limiter_event list \<Rightarrow> (nat \<times> int) list" where
  "limiter_run cfg st [] = []"
| "limiter_run cfg st (Arrive w t # es) =
     (w, clock (applyRateLimit cfg (st\<lparr>clock := t\<rparr>))) # limiter_run cfg st es"
| "limiter_run cfg st (ResponseArrived t # es) =
     limiter_run cfg (st\<lparr>lastRequest := t, requestCount := requestCount st + 1\<rparr>) es"

section \<open>Batches and the worker pool (batch processor module)\<close>

text \<open>A batch object as \<^verbatim>\<open>createBatches\<close> builds it.\<close>

record batch =
  batch_id :: string
  batchNumber :: nat
  batch_text :: string
  batch_start :: int
  batch_end :: int
  batch_tokens :: int

text \<open>
  Where the asynchronous function \<^verbatim>\<open>worker\<close> stands between two of its synchronous
  sections: at the head of the outer \<^verbatim>\<open>while\<close> loop, inside \<^verbatim>\<open>await sleep(100)\<close> of the
  pause loop, inside \<^verbatim>\<open>await this.processBatch(batch, options)\<close>, or returned. A worker
  whose promise rejected (an exception escaped the \<^verbatim>\<open>catch\<close> block) has also returned.
\<close>

datatype pc = Head | Sleeping | InFlight batch | Finished

text \<open>
  The fields of the processor. The three \<^verbatim>\<open>Map\<close>s are association lists in insertion
  order; an entry keeps the batch and the worker (and the result or the error message),
  time stamps are left out. \<open>workers\<close> holds every call of \<^verbatim>\<open>worker\<close> that was ever
  started on this processor, oldest first, with its \<^verbatim>\<open>workerId\<close> and its position: the
  calls are asynchronous functions of their own and live on whatever \<^verbatim>\<open>processBatches\<close>
  does later.
\<close>

record pool =
  queue :: "batch list"
  processing :: "(string \<times> batch \<times> nat) list"
  completed :: "(string \<times> batch \<times> response \<times> nat) list"
  failed :: "(string \<times> batch \<times> string \<times> nat) list"
  paused :: bool
  cancelled :: bool
  turboMode :: bool
  maxConcurrent :: nat
  workers :: "(nat \<times> pc) list"

text \<open>The fields as the constructor leaves them; no worker has been started.\<close>

definition new_processor :: "bool \<Rightarrow> nat \<Rightarrow> pool" where
  "new_processor turbo maxc =
     \<lparr>queue = [], processing = [], completed = [], failed = [], paused = False,
      cancelled = False, turboMode = turbo, maxConcurrent = maxc, workers = []\<rparr>"

text \<open>
  The synchronous start of \<^verbatim>\<open>processBatches\<close>: the queue is a copy of the batches, the maps
  are cleared, both flags are reset, and \<open>concurrency\<close> workers with the identifiers
  \<open>0, \<dots>, concurrency - 1\<close> are created. Nothing is done about the workers of an
  earlier call: they stay where they are.
\<close>

definition processBatches_start :: "pool \<Rightarrow> batch list \<Rightarrow> pool" where
  "processBatches_start p batches =
     (let concurrency = (if turboMode p then maxConcurrent p else 1)
      in p\<lparr>queue := batches, processing := [], completed := [], failed := [],
           paused := False, cancelled := False,
           workers := workers p @ map (\<lambda>i. (i, Head)) [0..<concurrency]\<rparr>)"

definition pause :: "pool \<Rightarrow> pool" where
  "pause p = p\<lparr>paused := True\<rparr>"

definition resume :: "pool \<Rightarrow> pool" where
  "resume p = p\<lparr>paused := False\<rparr>"

definition cancel :: "pool \<Rightarrow> pool" where
  "cancel p = p\<lparr>cancelled := True\<rparr>"

text \<open>\<^verbatim>\<open>String.prototype.includes\<close>\<close>

fun js_includes :: "string \<Rightarrow> string \<Rightarrow> bool" where
  "js_includes [] sub = (sub = [])"
| "js_includes (c # cs) sub = (take (length sub) (c # cs) = sub \<or> js_includes cs sub)"

definition hasRecentRateLimits :: "pool \<Rightarrow> bool" where
  "hasRecentRateLimits p =
     (length (filter (\<lambda>(k, b, msg, w). msg \<noteq> [] \<and> js_includes msg ''429'') (failed p)) > 2)"

text \<open>The \<^verbatim>\<open>workerId\<close> and the position of the \<open>k\<close>-th worker call.\<close>

definition workerId :: "pool \<Rightarrow> nat \<Rightarrow> nat" where
  "workerId p k = fst (workers p ! k)"

definition position :: "pool \<Rightarrow> nat \<Rightarrow> pc" where
  "position p k = snd (workers p ! k)"

definition set_pc :: "nat \<Rightarrow> pc \<Rightarrow> pool \<Rightarrow> pool" where
  "set_pc k c p = p\<lparr>workers := (workers p)[k := (workerId p k, c)]\<rparr>"

text \<open>
  \<^verbatim>\<open>const batch = this.queue.shift(); if (!batch) break; this.processing.set(...)\<close>, up to
  the \<^verbatim>\<open>await\<close> of \<^verbatim>\<open>processBatch\<close>.
\<close>

definition dequeue :: "nat \<Rightarrow> pool \<Rightarrow> pool" where
  "dequeue k p =
     (case queue p of
        [] \<Rightarrow> set_pc k Finished p
      | b # q \<Rightarrow>
          set_pc k (InFlight b)
            (p\<lparr>queue := q,
               processing := AList.update (batch_id b) (b, workerId p k) (processing p)\<rparr>))"

text \<open>
  A worker runs on from the head of the loop or wakes up in the pause loop. In both
  places the cancellation flag is read in the same synchronous section as the
  \<^verbatim>\<open>shift\<close>. A worker that waits for its batch or has returned cannot take this step.
\<close>

definition worker_step :: "nat \<Rightarrow> pool \<Rightarrow> pool option" where
  "worker_step k p =
     (if \<not> k < length (workers p) then None
      else case position p k of
        Head \<Rightarrow>
          if \<not> (queue p \<noteq> [] \<and> \<not> cancelled p) then Some (set_pc k Finished p)
          else if paused p \<and> \<not> cancelled p then Some (set_pc k Sleeping p)
          else if cancelled p then Some (set_pc k Finished p)
          else Some (dequeue k p)
      | Sleeping \<Rightarrow>
          if paused p \<and> \<not> cancelled p then Some (set_pc k Sleeping p)
          else if cancelled p then Some (set_pc k Finished p)
          else Some (dequeue k p)
      | InFlight b \<Rightarrow> None
      | Finished \<Rightarrow> None)"

text \<open>
  The promise of \<^verbatim>\<open>processBatch\<close> settles for the \<open>k\<close>-th worker call. The batch leaves the processing
  map and enters the completed or the failed map; then the adaptive check may end the
  worker. A rejection with \<^verbatim>\<open>undefined\<close> makes \<^verbatim>\<open>error.message\<close> throw inside the \<^verbatim>\<open>catch\<close>
  block before anything is recorded: the worker's promise rejects.
\<close>

definition after_batch :: "nat \<Rightarrow> pool \<Rightarrow> pool" where
  "after_batch k p =
     (if turboMode p \<and> hasRecentRateLimits p \<and> workerId p k > 0 then set_pc k Finished p
      else set_pc k Head p)"

definition settle :: "nat \<Rightarrow> error + response \<Rightarrow> pool \<Rightarrow> pool option" where
  "settle k outcome p =
     (if \<not> k < length (workers p) then None
      else case position p k of
        InFlight b \<Rightarrow>
          (case outcome of
             Inr res \<Rightarrow>
               Some (after_batch k
                 (p\<lparr>processing := AList.delete (batch_id b) (processing p),
                    completed :=
                      AList.update (batch_id b) (b, res, workerId p k) (completed p)\<rparr>))
           | Inl Undefined \<Rightarrow> Some (set_pc k Finished p)
           | Inl (Error msg s) \<Rightarrow>
               Some (after_batch k
                 (p\<lparr>processing := AList.delete (batch_id b) (processing p),
                    failed :=
                      AList.update (batch_id b) (b, msg, workerId p k) (failed p)\<rparr>)))
      | Head \<Rightarrow> None
      | Sleeping \<Rightarrow> None
      | Finished \<Rightarrow> None)"

text \<open>
  What can happen to a running pool: a worker takes its next step, a batch call settles,
  or the caller invokes \<^verbatim>\<open>cancel()\<close>, \<^verbatim>\<open>pause()\<close> or \<^verbatim>\<open>resume()\<close>. A schedule is a list of
  such events; \<open>run\<close> is \<open>None\<close> for a schedule that asks for a step that is not
  possible. JavaScript runs the bookkeeping after a settled call and the next step from
  the loop head in one synchronous section; here they are two events, so the executions of
  the code are the schedules in which a \<open>Settle k\<close> that leaves the worker at the loop
  head is directly followed by \<open>Step k\<close>, and a statement about all schedules covers them.
  Events name a worker call by its place in \<open>workers\<close>.
\<close>

datatype pool_event =
    Step nat
  | Settle nat "error + response"
  | Cancel
  | Pause
  | Resume

fun apply_event :: "pool_event \<Rightarrow> pool \<Rightarrow> pool option" where
  "apply_event (Step w) p = worker_step w p"
| "apply_event (Settle w outcome) p = settle w outcome p"
| "apply_event Cancel p = Some (cancel p)"
| "apply_event Pause p = Some (pause p)"
| "apply_event Resume p = Some (resume p)"

fun run :: "pool_event list \<Rightarrow> pool \<Rightarrow> pool option" where
  "run [] p = Some p"
| "run (e # es) p = (case apply_event e p of None \<Rightarrow> None | Some p' \<Rightarrow> run es p')"

text \<open>Identifiers in the maps, and of the batches that workers are waiting for.\<close>

definition map_keys :: "('k \<times> 'v) list \<Rightarrow> 'k set" where
  "map_keys al = fst ` set al"

definition recorded :: "pool \<Rightarrow> string set" where
  "recorded p = map_keys (completed p) \<union> map_keys (failed p)"

definition in_flight :: "pool \<Rightarrow> string set" where
  "in_flight p = {batch_id b | b. InFlight b \<in> snd ` set (workers p)}"

text \<open>
  A call of \<open>generateContent\<close> rejects with an \<^verbatim>\<open>Error\<close> object, never with \<^verbatim>\<open>undefined\<close>, as
  long as \<open>maxRetries\<close> is positive (the constructor's defaults see to that). Schedules
  of such calls contain no rejection with \<^verbatim>\<open>undefined\<close>.
\<close>

definition no_undefined :: "pool_event \<Rightarrow> bool" where
  "no_undefined e = (case e of Settle w (Inl Undefined) \<Rightarrow> False | _ \<Rightarrow> True)"

text \<open>
  What the schedule keeps true from the start of a run: the queued batches have distinct
  identifiers, and none of them is in a map or with a worker.
\<close>

definition pool_inv :: "pool \<Rightarrow> bool" where
  "pool_inv p =
     (distinct (map batch_id (queue p)) \<and>
      batch_id ` set (queue p) \<inter> (map_keys (processing p) \<union> recorded p \<union> in_flight p) = {})"

definition serving :: "pool \<Rightarrow> nat \<Rightarrow> batch \<Rightarrow> bool" where
  "serving p k b = (k < length (workers p) \<and> position p k = InFlight b)"

text \<open>No call of \<^verbatim>\<open>worker\<close> is alive: every one that was started has returned.\<close>

definition all_returned :: "pool \<Rightarrow> bool" where
  "all_returned p = list_all (\<lambda>(w, c). c = Finished) (workers p)"

text \<open>
  \<^verbatim>\<open>processBatches\<close> after \<^verbatim>\<open>await Promise.all(workers)\<close>: the values of the two maps in
  insertion order, as \<^verbatim>\<open>Array.from(map.values())\<close> lists them, and the counts. No step
  sorts the entries. (The success rate, a floating-point quotient, is left out.)
\<close>

record pool_results =
  results_completed :: "(batch \<times> response \<times> nat) list"
  results_failed :: "(batch \<times> string \<times> nat) list"
  stats_total :: nat
  stats_successful :: nat
  stats_failed :: nat

definition processBatches_results :: "pool \<Rightarrow> batch list \<Rightarrow> pool_results" where
  "processBatches_results p batches =
     \<lparr>results_completed = map snd (completed p),
      results_failed = map snd (failed p),
      stats_total = length batches,
      stats_successful = length (completed p),
      stats_failed = length (failed p)\<rparr>"

text \<open>Every identifier the processor holds anywhere.\<close>

definition held :: "pool \<Rightarrow> string set" where
  "held p = batch_id ` set (queue p) \<union> map_keys (processing p) \<union> recorded p \<union> in_flight p"


definition completed_numbers :: "pool_results \<Rightarrow> nat list" where
  "completed_numbers r = map (batchNumber \<circ> fst) (results_completed r)"

section \<open>Text processor (src/js/text-processor.js)\<close>

text \<open>
  \<^verbatim>\<open>createBatches\<close>: the chunks of \<^verbatim>\<open>chunkText\<close>, numbered from 1. \<^verbatim>\<open>generateId()\<close> is built
  from the clock and a random number; the identifiers are a parameter here. The result
  is \<open>None\<close> when \<^verbatim>\<open>chunkText\<close> does not return.
\<close>

definition createBatches :: "int \<Rightarrow> int \<Rightarrow> (nat \<Rightarrow> string) \<Rightarrow> string \<Rightarrow> batch list option" where
  "createBatches batchSize overlapSize ids tx =
     (case chunkText tx batchSize overlapSize of
        None \<Rightarrow> None
      | Some chunks \<Rightarrow>
          Some (map (\<lambda>(c, index).
                  \<lparr>batch_id = ids index, batchNumber = index + 1, batch_text = chunk_text c,
                   batch_start = chunk_start c, batch_end = chunk_end c,
                   batch_tokens = chunk_tokens c\<rparr>)
                (zip chunks [0..<length chunks])))"

definition buildPrompt :: "string \<Rightarrow> string \<Rightarrow> string" where
  "buildPrompt basePrompt tx =
     basePrompt @ [CHR 10, CHR 10] @ ''---'' @ [CHR 10, CHR 10] @ tx"

text \<open>
  The entries pushed to \<^verbatim>\<open>results\<close> and to \<^verbatim>\<open>errors\<close>. Properties that an entry does not
  have, or has as \<^verbatim>\<open>null\<close>, are \<open>None\<close>.
\<close>

record batch_result =
  res_batchId :: string
  res_batchNumber :: nat
  res_originalText :: string
  res_transformedText :: "string option"
  res_model :: "string option"
  res_error :: "string option"
  res_success :: bool

record batch_error =
  berr_batchId :: string
  berr_batchNumber :: nat
  berr_error :: string
  berr_originalText :: string

text \<open>
  The \<^verbatim>\<open>for\<close> loop of \<^verbatim>\<open>process\<close>: the batches are transformed one after the other, each call
  of the client starting from the state the previous one left. A rejection with
  \<^verbatim>\<open>undefined\<close> makes \<^verbatim>\<open>error.message\<close> throw inside the \<^verbatim>\<open>catch\<close> block, which ends
  \<^verbatim>\<open>process\<close>. The progress callback is taken not to throw.
\<close>

fun process_loop ::
  "config \<Rightarrow> backend \<Rightarrow> string \<Rightarrow> string \<Rightarrow> batch list \<Rightarrow> nat \<Rightarrow>
   batch_result list \<Rightarrow> batch_error list \<Rightarrow> state \<Rightarrow>
   error + (batch_result list \<times> batch_error list \<times> state)" where
  "process_loop cfg be sp basePrompt [] i results errors st = Inr (results, errors, st)"
| "process_loop cfg be sp basePrompt (b # bs) i results errors st =
     (case generateContent cfg be sp (buildPrompt basePrompt (batch_text b)) 0 st of
        (Inr transformed, st') \<Rightarrow>
          process_loop cfg be sp basePrompt bs (i + 1)
            (results @ [\<lparr>res_batchId = batch_id b, res_batchNumber = i + 1,
                          res_originalText = batch_text b,
                          res_transformedText = Some (resp_text transformed),
                          res_model = Some (resp_model transformed),
                          res_error = None, res_success = True\<rparr>])
            errors st'
      | (Inl Undefined, st') \<Rightarrow>
          Inl (Error ''Cannot read properties of undefined (reading message)'' None)
      | (Inl (Error msg s), st') \<Rightarrow>
          process_loop cfg be sp basePrompt bs (i + 1)
            (results @ [\<lparr>res_batchId = batch_id b, res_batchNumber = i + 1,
                          res_originalText = batch_text b,
                          res_transformedText = None, res_model = None,
                          res_error = Some msg, res_success = False\<rparr>])
            (errors @ [\<lparr>berr_batchId = batch_id b, berr_batchNumber = i + 1,
                         berr_error = msg, berr_originalText = batch_text b\<rparr>])
            st')"

text \<open>\<^verbatim>\<open>Array.prototype.join\<close>; a \<^verbatim>\<open>null\<close> element is printed as the empty string.\<close>

fun js_join :: "string \<Rightarrow> string option list \<Rightarrow> string" where
  "js_join sep [] = []"
| "js_join sep [x] = (case x of None \<Rightarrow> [] | Some s \<Rightarrow> s)"
| "js_join sep (x # y # ys) =
     (case x of None \<Rightarrow> [] | Some s \<Rightarrow> s) @ sep @ js_join sep (y # ys)"

record process_result =
  originalText :: string
  transformedText :: string
  batches :: "batch_result list"
  errors :: "batch_error list"
  totalBatches :: nat
  successfulBatches :: nat
  failedBatches :: nat

text \<open>
  \<^verbatim>\<open>process\<close> from the batches on: the loop, then the successful entries' texts joined by
  an empty line. (The success rate, a floating-point quotient, is left out of the
  statistics.)
\<close>

definition process_batches ::
  "config \<Rightarrow> backend \<Rightarrow> string \<Rightarrow> string \<Rightarrow> string \<Rightarrow> batch list \<Rightarrow> state \<Rightarrow>
   error + (process_result \<times> state)" where
  "process_batches cfg be sp basePrompt tx bs st =
     (case process_loop cfg be sp basePrompt bs 0 [] [] st of
        Inl e \<Rightarrow> Inl e
      | Inr (results, errs, st') \<Rightarrow>
          Inr (\<lparr>originalText = tx,
                transformedText =
                  js_join [CHR 10, CHR 10] (map res_transformedText (filter res_success results)),
                batches = results,
                errors = errs,
                totalBatches = length bs,
                successfulBatches = length (filter res_success results),
                failedBatches = length errs\<rparr>, st'))"

definition process ::
  "config \<Rightarrow> backend \<Rightarrow> string \<Rightarrow> string \<Rightarrow> int \<Rightarrow> int \<Rightarrow> (nat \<Rightarrow> string) \<Rightarrow> string \<Rightarrow> state \<Rightarrow>
   (error + (process_result \<times> state)) option" where
  "process cfg be sp basePrompt batchSize overlapSize ids tx st =
     (case createBatches batchSize overlapSize ids tx of
        None \<Rightarrow> None
      | Some bs \<Rightarrow> Some (process_batches cfg be sp basePrompt tx bs st))"

text \<open>
  The statement to compare with, in the words of the specification: the outcome of every
  batch in submission order, the outputs of the successful ones, and the failed ones with
  their error text.
\<close>

fun batch_outcomes ::
  "config \<Rightarrow> backend \<Rightarrow> string \<Rightarrow> string \<Rightarrow> batch list \<Rightarrow> state \<Rightarrow> (batch \<times> (error + response)) list"
  where
  "batch_outcomes cfg be sp basePrompt [] st = []"
| "batch_outcomes cfg be sp basePrompt (b # bs) st =
     (case generateContent cfg be sp (buildPrompt basePrompt (batch_text b)) 0 st of
        (r, st') \<Rightarrow> (b, r) # batch_outcomes cfg be sp basePrompt bs st')"

fun successful_outputs :: "(batch \<times> (error + response)) list \<Rightarrow> string list" where
  "successful_outputs [] = []"
| "successful_outputs ((b, Inr resp) # os) = resp_text resp # successful_outputs os"
| "successful_outputs ((b, Inl e) # os) = successful_outputs os"

fun failure_report :: "(batch \<times> (error + response)) list \<Rightarrow> (string \<times> string) list" where
  "failure_report [] = []"
| "failure_report ((b, Inr resp) # os) = failure_report os"
| "failure_report ((b, Inl e) # os) = (batch_id b, err_message e) # failure_report os"

fun paragraphs :: "string list \<Rightarrow> string" where
  "paragraphs [] = []"
| "paragraphs [x] = x"
| "paragraphs (x # y # ys) = x @ [CHR 10, CHR 10] @ paragraphs (y # ys)"

text \<open>
  A concrete client for the scenarios: the default retry settings of
  \<^verbatim>\<open>settings-manager.js\<close>, two credentials, three models, and a clock at a time of day in
  milliseconds as \<^verbatim>\<open>Date.now()\<close> returns it.
\<close>

definition example_config :: config where
  "example_config =
     \<lparr>apiKeys = [''key-primary'', ''key-backup''],
      models = [''model-a'', ''model-b'', ''model-c''],
      timeout = 60000, maxRetries = 3, retryDelay = 2000, rateLimitDelay = 1000\<rparr>"

definition example_state :: state where
  "example_state =
     \<lparr>currentKeyIndex = 0, lastRequest = 0, requestCount = 0,
      clock = 1700000000000, fetches = 0, trace = []\<rparr>"

definition backend_503 :: backend where
  "backend_503 n m k b = \<lparr>latency = 100, result = Responded 503 ''unavailable'' NoCandidate\<rparr>"

definition backend_slow :: backend where
  "backend_slow n m k b = \<lparr>latency = 70000, result = Responded 200 [] (Candidate ''late'' ''STOP'')\<rparr>"

definition example_config_one_model :: config where
  "example_config_one_model = example_config\<lparr>models := [''model-a'']\<rparr>"

definition example_config_no_key :: config where
  "example_config_no_key = example_config\<lparr>apiKeys := [], models := [''model-a'', ''model-b'']\<rparr>"

definition backend_429 :: backend where
  "backend_429 n m k b = \<lparr>latency = 100, result = Responded 429 ''quota'' NoCandidate\<rparr>"

definition backend_ok :: backend where
  "backend_ok n m k b = \<lparr>latency = 100, result = Responded 200 [] (Candidate (''spoken: '' @ b) ''STOP'')\<rparr>"

text \<open>Three batches and a processor that an earlier run has left cancelled and paused.\<close>

definition example_batch :: "nat \<Rightarrow> string \<Rightarrow> string \<Rightarrow> batch" where
  "example_batch n ident t =
     \<lparr>batch_id = ident, batchNumber = n, batch_text = t,
      batch_start = 0, batch_end = int (length t), batch_tokens = estimateTokenCount t\<rparr>"

definition example_batches :: "batch list" where
  "example_batches =
     [example_batch 1 ''id-1'' ''first'', example_batch 2 ''id-2'' ''second'',
      example_batch 3 ''id-3'' ''third'']"

definition example_response :: response where
  "example_response = \<lparr>resp_text = ''spoken'', resp_model = ''model-a'', resp_finishReason = ''STOP''\<rparr>"

definition example_pool :: pool where
  "example_pool =
     \<lparr>queue = [], processing = [],
      completed = [(''old'', example_batch 1 ''old'' ''stale'', example_response, 0)],
      failed = [], paused = True, cancelled = True, turboMode = False, maxConcurrent = 3,
      workers = [(0, Finished)]\<rparr>"

definition example_pool_at_cancel :: pool where
  "example_pool_at_cancel =
     \<lparr>queue = [example_batch 2 ''id-2'' ''second'', example_batch 3 ''id-3'' ''third''],
      processing = [(''id-1'', example_batch 1 ''id-1'' ''first'', 0)],
      completed = [], failed = [], paused = False, cancelled = False, turboMode = False,
      maxConcurrent = 3,
      workers = [(0, Finished), (0, InFlight (example_batch 1 ''id-1'' ''first''))]\<rparr>"

definition example_pool_final :: pool where
  "example_pool_final =
     \<lparr>queue = [example_batch 2 ''id-2'' ''second'', example_batch 3 ''id-3'' ''third''],
      processing = [],
      completed = [(''id-1'', example_batch 1 ''id-1'' ''first'', example_response, 0)],
      failed = [], paused = False, cancelled = True, turboMode = False,
      maxConcurrent = 3, workers = [(0, Finished), (0, Finished)]\<rparr>"

text \<open>A service that rejects the prompt of the second example batch and transforms the others.\<close>

definition backend_mixed :: backend where
  "backend_mixed n m k b =
     (if js_includes b ''second''
      then \<lparr>latency = 100, result = Responded 400 ''bad request'' NoCandidate\<rparr>
      else \<lparr>latency = 100, result = Responded 200 [] (Candidate (''spoken #'' @ show_nat n) ''STOP'')\<rparr>)"

text \<open>
  Batches for a second call of \<open>processBatches\<close>, and a processor with three workers as
  the turbo mode starts them.
\<close>

definition example_batches_second :: "batch list" where
  "example_batches_second =
     [example_batch 1 ''id-4'' ''fourth'', example_batch 2 ''id-5'' ''fifth'']"

definition example_pool_overlap :: pool where
  "example_pool_overlap =
     \<lparr>queue = [],
      processing = [(''id-4'', example_batch 1 ''id-4'' ''fourth'', 0),
                    (''id-5'', example_batch 2 ''id-5'' ''fifth'', 0)],
      completed = [(''id-1'', example_batch 1 ''id-1'' ''first'', example_response, 0)],
      failed = [], paused = False, cancelled = False, turboMode = False,
      maxConcurrent = 3,
      workers = [(0, Finished), (0, InFlight (example_batch 2 ''id-5'' ''fifth'')),
                 (0, InFlight (example_batch 1 ''id-4'' ''fourth''))]\<rparr>"

text \<open>
  A turbo run on five batches that was paused and then cancelled: the first and the
  third worker wait for their batches, the second has completed its batch and polls in
  the pause loop.
\<close>

definition example_old_batches :: "batch list" where
  "example_old_batches =
     [example_batch 1 ''old-1'' ''stale'', example_batch 2 ''old-2'' ''stale'',
      example_batch 3 ''old-3'' ''stale'', example_batch 4 ''old-4'' ''stale'',
      example_batch 5 ''old-5'' ''stale'']"

definition example_pool_alive :: pool where
  "example_pool_alive =
     \<lparr>queue = [example_batch 4 ''old-4'' ''stale'', example_batch 5 ''old-5'' ''stale''],
      processing = [(''old-1'', example_batch 1 ''old-1'' ''stale'', 0),
                    (''old-3'', example_batch 3 ''old-3'' ''stale'', 2)],
      completed = [(''old-2'', example_batch 2 ''old-2'' ''stale'', example_response, 1)],
      failed = [], paused = True, cancelled = True, turboMode = True,
      maxConcurrent = 3,
      workers = [(0, InFlight (example_batch 1 ''old-1'' ''stale'')), (1, Sleeping),
                 (2, InFlight (example_batch 3 ''old-3'' ''stale''))]\<rparr>"

text \<open>
  A text processor with a batch size of two tokens and a negative overlap (the
  constructor replaces only a missing or zero overlap by its default), a text of three
  windows, and the batches \<open>createBatches\<close> makes of it.
\<close>

definition example_text :: string where
  "example_text = ''first   second  third''"

definition example_ids :: "nat \<Rightarrow> string" where
  "example_ids n = ''id-'' @ show_nat (n + 1)"

definition example_text_batches :: "batch list" where
  "example_text_batches =
     [\<lparr>batch_id = ''id-1'', batchNumber = 1, batch_text = ''first   '',
       batch_start = 0, batch_end = 8, batch_tokens = 2\<rparr>,
      \<lparr>batch_id = ''id-2'', batchNumber = 2, batch_text = ''second  '',
       batch_start = 8, batch_end = 16, batch_tokens = 2\<rparr>,
      \<lparr>batch_id = ''id-3'', batchNumber = 3, batch_text = ''third'',
       batch_start = 16, batch_end = 21, batch_tokens = 2\<rparr>]"

text \<open>Three turbo workers whose calls settled in the order third, second, first.\<close>

definition example_pool_reversed :: pool where
  "example_pool_reversed =
     \<lparr>queue = [], processing = [],
      completed = [(''id-3'', example_batch 3 ''id-3'' ''third'', example_response, 2),
                   (''id-2'', example_batch 2 ''id-2'' ''second'', example_response, 1),
                   (''id-1'', example_batch 1 ''id-1'' ''first'', example_response, 0)],
      failed = [], paused = False, cancelled = False, turboMode = True, maxConcurrent = 3,
      workers = [(0, Finished), (1, Finished), (2, Finished)]\<rparr>"

section \<open>Properties of the chunker\<close>

text \<open>
  One iteration with a positive overlap: the next start is \<open>endPos - overlapChars\<close>,
  which is below \<open>endPos\<close>, so the guard \<^verbatim>\<open>if (start >= end) start = end\<close> does not fire.
\<close>

lemma chunkText_loop_step:
  assumes "start < int (length tx)" and "0 < oc"
  shows "chunkText_loop tx bc oc start chunks =
         chunkText_loop tx bc oc (min (start + bc) (int (length tx)) - oc)
           (chunks @ [\<lparr>chunk_text = substring tx start (min (start + bc) (int (length tx))),
                        chunk_start = start,
                        chunk_end = min (start + bc) (int (length tx)),
                        chunk_tokens = estimateTokenCount
                          (substring tx start (min (start + bc) (int (length tx))))\<rparr>])"
  using assms by (subst chunkText_loop.simps) (simp add: Let_def)

text \<open>
  With a positive overlap the loop condition \<open>start < length tx\<close> is an invariant of
  the loop: every new start is below \<open>endPos \<le> length tx\<close>. By fixpoint induction no
  result is ever produced.
\<close>

lemma chunkText_loop_no_result:
  assumes "chunkText_loop tx bc oc start chunks = Some y"
  shows "\<not> (start < int (length tx) \<and> 0 < oc)"
proof (rule chunkText_loop.raw_induct
    [where P = "\<lambda>tx bc oc start chunks y. \<not> (start < int (length tx) \<and> 0 < oc)",
     OF _ assms])
  fix f tx bc oc start chunks y
  assume IH: "\<And>tx bc oc start chunks y.
                 f tx bc oc start chunks = Some y \<Longrightarrow>
                 \<not> (start < int (length tx) \<and> 0 < oc)"
    and body:
      "(if start < int (length tx) then
          (let endPos = min (start + bc) (int (length tx));
               piece = substring tx start endPos;
               chunks' = chunks @ [\<lparr>chunk_text = piece, chunk_start = start,
                                    chunk_end = endPos,
                                    chunk_tokens = estimateTokenCount piece\<rparr>];
               start' = endPos - oc;
               start'' = (if start' \<ge> endPos then endPos else start')
           in f tx bc oc start'' chunks')
        else Some chunks) = Some y"
  show "\<not> (start < int (length tx) \<and> 0 < oc)"
  proof
    assume inv: "start < int (length tx) \<and> 0 < oc"
    define e where "e = min (start + bc) (int (length tx))"
    from inv body obtain cs where rec: "f tx bc oc (e - oc) cs = Some y"
      by (simp add: Let_def e_def)
    have "e - oc < int (length tx)"
      using inv unfolding e_def by linarith
    with IH[OF rec] inv show False by simp
  qed
qed

lemma chunkText_loop_diverges:
  assumes "start < int (length tx)" and "0 < oc"
  shows "chunkText_loop tx bc oc start chunks = None"
proof (cases "chunkText_loop tx bc oc start chunks")
  case None
  then show ?thesis .
next
  case (Some y)
  from chunkText_loop_no_result[OF Some] assms show ?thesis by simp
qed

lemma chunkText_diverges:
  assumes "tx \<noteq> []" and "0 < overlapSize"
  shows "chunkText tx batchSize overlapSize = None"
  unfolding chunkText_def using assms by (intro chunkText_loop_diverges) simp_all

text \<open>
  Without overlap the clamp makes the next start equal to \<open>endPos\<close>, and the loop
  returns: the model's \<open>None\<close> is not an artefact of the embedding.
\<close>

lemma chunkText_loop_no_overlap_returns:
  assumes "0 < bc" and "oc \<le> 0"
  shows "\<exists>cs. chunkText_loop tx bc oc start chunks = Some cs"
proof (induction "nat (int (length tx) - start)" arbitrary: start chunks rule: less_induct)
  case less
  show ?case
  proof (cases "start < int (length tx)")
    case False
    then show ?thesis by (subst chunkText_loop.simps) simp
  next
    case True
    define e where "e = min (start + bc) (int (length tx))"
    have "start < e" using True assms by (simp add: e_def)
    then have "nat (int (length tx) - e) < nat (int (length tx) - start)"
      using True by (simp add: e_def)
    from less[OF this] obtain cs where
      "chunkText_loop tx bc oc e
         (chunks @ [\<lparr>chunk_text = substring tx start e, chunk_start = start, chunk_end = e,
                      chunk_tokens = estimateTokenCount (substring tx start e)\<rparr>]) = Some cs"
      by blast
    then show ?thesis
      using True assms by (subst chunkText_loop.simps) (simp add: Let_def e_def)
  qed
qed

text \<open>
  Scenario A step by step: the first two windows are \<open>[0, 40000)\<close> and
  \<open>[39200, 45000)\<close>; after them every iteration starts at \<open>44200\<close> again and pushes
  the window \<open>[44200, 45000)\<close> once more.
\<close>

lemma chunkText_scenario_A_windows:
  assumes "length tx = 45000"
  shows "chunkText tx 10000 200 =
           chunkText_loop tx 40000 800 44200
             [\<lparr>chunk_text = substring tx 0 40000, chunk_start = 0, chunk_end = 40000,
               chunk_tokens = estimateTokenCount (substring tx 0 40000)\<rparr>,
              \<lparr>chunk_text = substring tx 39200 45000, chunk_start = 39200,
               chunk_end = 45000,
               chunk_tokens = estimateTokenCount (substring tx 39200 45000)\<rparr>]"
    and "chunkText_loop tx 40000 800 44200 cs =
           chunkText_loop tx 40000 800 44200
             (cs @ [\<lparr>chunk_text = substring tx 44200 45000, chunk_start = 44200,
                      chunk_end = 45000,
                      chunk_tokens = estimateTokenCount (substring tx 44200 45000)\<rparr>])"
proof -
  have s1: "chunkText_loop tx 40000 800 0 [] =
      chunkText_loop tx 40000 800 39200
        [\<lparr>chunk_text = substring tx 0 40000, chunk_start = 0, chunk_end = 40000,
          chunk_tokens = estimateTokenCount (substring tx 0 40000)\<rparr>]"
    using assms by (subst chunkText_loop_step) simp_all
  have s2: "chunkText_loop tx 40000 800 39200 ds =
      chunkText_loop tx 40000 800 44200
        (ds @ [\<lparr>chunk_text = substring tx 39200 45000, chunk_start = 39200,
                 chunk_end = 45000,
                 chunk_tokens = estimateTokenCount (substring tx 39200 45000)\<rparr>])" for ds
    using assms by (subst chunkText_loop_step) simp_all
  show "chunkText tx 10000 200 =
           chunkText_loop tx 40000 800 44200
             [\<lparr>chunk_text = substring tx 0 40000, chunk_start = 0, chunk_end = 40000,
               chunk_tokens = estimateTokenCount (substring tx 0 40000)\<rparr>,
              \<lparr>chunk_text = substring tx 39200 45000, chunk_start = 39200,
               chunk_end = 45000,
               chunk_tokens = estimateTokenCount (substring tx 39200 45000)\<rparr>]"
    by (simp add: chunkText_def s1 s2)
  show "chunkText_loop tx 40000 800 44200 cs =
           chunkText_loop tx 40000 800 44200
             (cs @ [\<lparr>chunk_text = substring tx 44200 45000, chunk_start = 44200,
                      chunk_end = 45000,
                      chunk_tokens = estimateTokenCount (substring tx 44200 45000)\<rparr>])"
    using assms by (subst chunkText_loop_step) simp_all
qed

text \<open>
  Claim C1. For every text and every configuration with \<open>batchSize > 0\<close> and
  \<open>overlapSize \<ge> 0\<close>, including \<open>overlapSize \<ge> batchSize\<close>, \<open>chunkText\<close> is to
  terminate and return a finite list of chunks. The code does not: on the ten-character
  text below with \<open>batchSize = 1\<close> and \<open>overlapSize = 1\<close> the window moves from
  \<open>[0, 4)\<close> back to start \<open>0\<close> and the call never returns.
\<close>

theorem chunkText_overlap_ge_batch_never_returns:
  "chunkText ''abcdefghij'' 1 1 = None"
  by (rule chunkText_diverges) simp_all

text \<open>
  Claim C2. For a text of exactly 45,000 characters with \<open>batchSize = 10000\<close> and
  \<open>overlapSize = 200\<close>, \<open>chunkText\<close> is to return exactly the two chunks \<open>[0, 40000)\<close>
  and \<open>[39200, 45000)\<close>. The code pushes these two chunks and then restarts at
  \<open>45000 - 800 = 44200\<close> for ever: the call returns nothing.
\<close>

theorem chunkText_scenario_A_never_returns:
  "length tx = 45000 \<Longrightarrow> chunkText tx 10000 200 = None"
  by (rule chunkText_diverges) auto

theorem chunkText_scenario_A_never_returns_witness:
  "length (replicate 45000 (CHR ''a'')) = 45000 \<and>
   chunkText (replicate 45000 (CHR ''a'')) 10000 200 = None"
  using chunkText_scenario_A_never_returns [of "replicate 45000 (CHR ''a'')"] by simp

section \<open>Properties of the retry policy\<close>

lemma fetched_models_append:
  "fetched_models (xs @ ys) = fetched_models xs @ fetched_models ys"
  by (induction xs rule: fetched_models.induct) simp_all

lemma backoffs_append: "backoffs (xs @ ys) = backoffs xs @ backoffs ys"
  by (induction xs rule: backoffs.induct) simp_all

lemma failovers_append: "failovers (xs @ ys) = failovers xs @ failovers ys"
  by (induction xs rule: failovers.induct) simp_all

lemma applyRateLimit_fields:
  "currentKeyIndex (applyRateLimit cfg st) = currentKeyIndex st"
  "fetches (applyRateLimit cfg st) = fetches st"
  "lastRequest (applyRateLimit cfg st) = lastRequest st"
  "requestCount (applyRateLimit cfg st) = requestCount st"
  by (simp_all add: applyRateLimit_def sleep_def Let_def)

lemma applyRateLimit_trace:
  "fetched_models (trace (applyRateLimit cfg st)) = fetched_models (trace st)"
  "backoffs (trace (applyRateLimit cfg st)) = backoffs (trace st)"
  "failovers (trace (applyRateLimit cfg st)) = failovers (trace st)"
  by (simp_all add: applyRateLimit_def sleep_def Let_def fetched_models_append
      backoffs_append failovers_append)

text \<open>One attempt against a service that answers with a 5xx status.\<close>

lemma attempt_server_error:
  assumes key: "currentKeyIndex st < length (apiKeys cfg)" "[] \<notin> set (apiKeys cfg)"
    and r: "server_error_reply cfg (be (fetches st) model (apiKeys cfg ! currentKeyIndex st) body)"
  shows "\<exists>st'. attempt cfg be model body retry st =
            (Continue (reply_error
               (be (fetches st) model (apiKeys cfg ! currentKeyIndex st) body)), st')
          \<and> fetches st' = Suc (fetches st)
          \<and> fetched_models (trace st') = fetched_models (trace st) @ [model]
          \<and> failovers (trace st') = failovers (trace st)
          \<and> currentKeyIndex st' < length (apiKeys cfg)"
proof -
  define st1 where "st1 = applyRateLimit cfg st"
  define rp where "rp = be (fetches st) model (apiKeys cfg ! currentKeyIndex st) body"
  have k1: "currentKeyIndex st1 = currentKeyIndex st" and f1: "fetches st1 = fetches st"
    and t1: "fetched_models (trace st1) = fetched_models (trace st)"
    and o1: "failovers (trace st1) = failovers (trace st)"
    by (simp_all add: st1_def applyRateLimit_fields applyRateLimit_trace)
  have ne: "apiKeys cfg ! currentKeyIndex st \<noteq> []"
    using key by (metis nth_mem)
  from r obtain s msg pl where res: "result rp = Responded s msg pl"
    and s: "500 \<le> s" "s < 600" and lat: "latency rp < timeout cfg"
    by (auto simp: server_error_reply_def rp_def split: fetch_result.splits)
  define st3 where "st3 = st1\<lparr>fetches := fetches st1 + 1,
      trace := trace st1 @ [Fetch (fetches st1) model (apiKeys cfg ! currentKeyIndex st1)],
      clock := clock st1 + int (latency rp),
      lastRequest := clock st1 + int (latency rp),
      requestCount := requestCount st1 + 1\<rparr>"
  have mk: "makeRequest cfg be model body st1 = (Inl (Error msg (Some s)), st3)"
    using key ne res s lat
    by (simp add: makeRequest_def Let_def k1 f1 rp_def[symmetric] st3_def)
  have st3_fields: "fetches st3 = Suc (fetches st)" "currentKeyIndex st3 = currentKeyIndex st"
    "fetched_models (trace st3) = fetched_models (trace st) @ [model]"
    "failovers (trace st3) = failovers (trace st)"
    by (simp_all add: st3_def f1 k1 t1 o1 fetched_models_append failovers_append)
  have is5: "status_in (Error msg (Some s)) 500 600" "\<not> status_is (Error msg (Some s)) 429"
    using s by (simp_all add: status_in_def status_is_def)
  have re: "reply_error rp = Error msg (Some s)"
    by (simp add: reply_error_def res)
  show ?thesis
    unfolding attempt_def st1_def[symmetric] rp_def[symmetric] re
    using is5 key st3_fields
    by (simp add: mk Let_def sleep_def fetched_models_append failovers_append)
qed

text \<open>
  The retry loop against such a service: it runs to the end of the loop, one fetch per
  iteration, and throws the error of the last one.
\<close>

lemma callWithRetry_loop_server_errors:
  assumes keys: "[] \<notin> set (apiKeys cfg)"
    and all5: "\<forall>n m k b. server_error_reply cfg (be n m k b)"
    and key: "currentKeyIndex st < length (apiKeys cfg)"
  shows "\<exists>e st'. callWithRetry_loop cfg be model body retry lastError st = (Inl e, st')
          \<and> fetches st' = fetches st + (maxRetries cfg - retry)
          \<and> fetched_models (trace st') =
              fetched_models (trace st) @ replicate (maxRetries cfg - retry) model
          \<and> failovers (trace st') = failovers (trace st)
          \<and> currentKeyIndex st' < length (apiKeys cfg)
          \<and> (if retry < maxRetries cfg
              then \<exists>k. e = reply_error (be (fetches st' - 1) model k body)
              else e = lastError)"
  using key
proof (induction "maxRetries cfg - retry" arbitrary: retry lastError st)
  case 0
  then show ?case by (subst callWithRetry_loop.simps) simp
next
  case (Suc d)
  from Suc.hyps(2) have lt: "retry < maxRetries cfg" by simp
  let ?r = "be (fetches st) model (apiKeys cfg ! currentKeyIndex st) body"
  from attempt_server_error[OF Suc.prems keys, of be model body retry] all5
  obtain st1 where a: "attempt cfg be model body retry st = (Continue (reply_error ?r), st1)"
    and f1: "fetches st1 = Suc (fetches st)"
    and t1: "fetched_models (trace st1) = fetched_models (trace st) @ [model]"
    and fo1: "failovers (trace st1) = failovers (trace st)"
    and k1: "currentKeyIndex st1 < length (apiKeys cfg)"
    by blast
  from Suc.hyps(2) have d: "d = maxRetries cfg - Suc retry" by simp
  from Suc.hyps(1)[OF d k1, of "reply_error ?r"]
  obtain e st' where
    l: "callWithRetry_loop cfg be model body (Suc retry) (reply_error ?r) st1 = (Inl e, st')"
    and f': "fetches st' = fetches st1 + (maxRetries cfg - Suc retry)"
    and t': "fetched_models (trace st') =
              fetched_models (trace st1) @ replicate (maxRetries cfg - Suc retry) model"
    and fo': "failovers (trace st') = failovers (trace st1)"
    and k': "currentKeyIndex st' < length (apiKeys cfg)"
    and e': "if Suc retry < maxRetries cfg
              then \<exists>k. e = reply_error (be (fetches st' - 1) model k body)
              else e = reply_error ?r"
    by blast
  have unfold: "callWithRetry_loop cfg be model body retry lastError st = (Inl e, st')"
    using lt a l by (subst callWithRetry_loop.simps) simp
  have cnt: "fetches st' = fetches st + (maxRetries cfg - retry)"
    using f' f1 lt by simp
  have tr: "fetched_models (trace st') =
              fetched_models (trace st) @ replicate (maxRetries cfg - retry) model"
  proof -
    have "maxRetries cfg - retry = Suc (maxRetries cfg - Suc retry)"
      using lt by simp
    then have "replicate (maxRetries cfg - retry) model =
                 model # replicate (maxRetries cfg - Suc retry) model"
      by simp
    with t' t1 show ?thesis by simp
  qed
  have last: "\<exists>k. e = reply_error (be (fetches st' - 1) model k body)"
  proof (cases "Suc retry < maxRetries cfg")
    case True
    with e' show ?thesis by simp
  next
    case False
    with lt have "maxRetries cfg - Suc retry = 0" by simp
    with f' f1 have "fetches st' - 1 = fetches st" by simp
    with e' False show ?thesis by auto
  qed
  show ?case
    using unfold cnt tr k' last lt fo' fo1 by simp
qed

text \<open>The cascade over the model list against such a service, from any index.\<close>

lemma generateContent_server_errors:
  assumes keys: "[] \<notin> set (apiKeys cfg)"
    and all5: "\<forall>n m k b. server_error_reply cfg (be n m k b)"
    and mr: "0 < maxRetries cfg"
    and ms: "[] \<notin> set (models cfg)"
    and key: "currentKeyIndex st < length (apiKeys cfg)"
    and i: "i < length (models cfg)"
  shows "\<exists>e st'. generateContent cfg be sp prompt i st = (Inl e, st')
          \<and> fetched_models (trace st') =
              fetched_models (trace st) @
              concat (map (replicate (maxRetries cfg)) (drop i (models cfg)))
          \<and> failovers (trace st') = failovers (trace st) @ butlast (drop i (models cfg))
          \<and> (\<exists>k. e = reply_error
                 (be (fetches st' - 1) (last (models cfg)) k (buildRequestBody sp prompt)))"
  using key i
proof (induction "length (models cfg) - i" arbitrary: i st)
  case 0
  then show ?case by simp
next
  case (Suc d)
  let ?m = "models cfg ! i"
  let ?body = "buildRequestBody sp prompt"
  have m: "?m \<noteq> []" using ms Suc.prems(2) by (metis nth_mem)
  from callWithRetry_loop_server_errors[OF keys all5 Suc.prems(1), of ?m ?body 0 Undefined] mr
  obtain e st1 where c: "callWithRetry cfg be ?m ?body st = (Inl e, st1)"
    and t1: "fetched_models (trace st1) =
               fetched_models (trace st) @ replicate (maxRetries cfg) ?m"
    and o1: "failovers (trace st1) = failovers (trace st)"
    and k1: "currentKeyIndex st1 < length (apiKeys cfg)"
    and e1: "\<exists>k. e = reply_error (be (fetches st1 - 1) ?m k ?body)"
    by (auto simp: callWithRetry_def)
  have dr: "drop i (models cfg) = ?m # drop (Suc i) (models cfg)"
    using Suc.prems(2) by (simp add: Cons_nth_drop_Suc)
  show ?case
  proof (cases "Suc i < length (models cfg)")
    case False
    with Suc.prems(2) have li: "i = length (models cfg) - 1" by simp
    then have la: "last (models cfg) = ?m"
      using Suc.prems(2) by (metis last_conv_nth length_greater_0_conv gr_implies_not0 list.size(3))
    have "drop (Suc i) (models cfg) = []" using False by simp
    with dr have dr1: "drop i (models cfg) = [?m]" by simp
    have "generateContent cfg be sp prompt i st = (Inl e, st1)"
      using Suc.prems(2) m c False by (subst generateContent.simps) simp
    then show ?thesis
      using t1 o1 e1 la dr1 by simp
  next
    case True
    define st2 where "st2 = st1\<lparr>trace := trace st1 @ [ModelFailed ?m]\<rparr>"
    have k2: "currentKeyIndex st2 < length (apiKeys cfg)"
      using k1 by (simp add: st2_def)
    have d: "d = length (models cfg) - Suc i" using Suc.hyps(2) by simp
    from Suc.hyps(1)[OF d k2 True]
    obtain e' st' where g: "generateContent cfg be sp prompt (Suc i) st2 = (Inl e', st')"
      and t': "fetched_models (trace st') =
                 fetched_models (trace st2) @
                 concat (map (replicate (maxRetries cfg)) (drop (Suc i) (models cfg)))"
      and o': "failovers (trace st') =
                 failovers (trace st2) @ butlast (drop (Suc i) (models cfg))"
      and e': "\<exists>k. e' = reply_error (be (fetches st' - 1) (last (models cfg)) k ?body)"
      by blast
    have ne: "drop (Suc i) (models cfg) \<noteq> []" using True by simp
    have "generateContent cfg be sp prompt i st = (Inl e', st')"
      using Suc.prems(2) m c True g
      by (subst generateContent.simps) (simp add: st2_def)
    moreover have "fetched_models (trace st') =
              fetched_models (trace st) @
              concat (map (replicate (maxRetries cfg)) (drop i (models cfg)))"
      using t' t1 by (simp add: st2_def dr fetched_models_append)
    moreover have "failovers (trace st') =
        failovers (trace st) @ butlast (drop i (models cfg))"
      using o' o1 ne by (simp add: st2_def dr failovers_append)
    ultimately show ?thesis using e' by blast
  qed
qed

text \<open>Unfolding rules for running the client on concrete inputs.\<close>

lemmas client_eval =
  generateContent.simps callWithRetry_loop.simps callWithRetry_def attempt_def
  makeRequest_def applyRateLimit_def sleep_def buildRequestBody_def status_is_def
  status_in_def show_nat.simps

lemmas example_defs =
  example_config_def example_state_def backend_503_def backend_slow_def
  example_config_one_model_def example_config_no_key_def backend_429_def backend_ok_def
text \<open>
  Claim C3. For every prompt and every non-empty list of models (model identifiers are
  non-empty strings), when the attempts for the current model fail, \<open>generateContent\<close>
  goes on to the next model of the list and runs the retry loop again from attempt 0; when
  there is no further model it rejects with the last error. In particular, against a
  service that answers every request with a 5xx status, every model of the list is
  requested exactly \<open>maxRetries\<close> times, in list order, and the rejection carries the
  error of the last request, which was sent to the last model.
\<close>

theorem generateContent_failover_cascade:
  assumes keys: "[] \<notin> set (apiKeys cfg)"
    and key: "currentKeyIndex st < length (apiKeys cfg)"
    and ms: "models cfg \<noteq> []" "[] \<notin> set (models cfg)"
    and mr: "0 < maxRetries cfg"
  shows "(\<forall>i s. i < length (models cfg) \<longrightarrow>
            generateContent cfg be sp prompt i s =
              (case callWithRetry_loop cfg be (models cfg ! i) (buildRequestBody sp prompt)
                      0 Undefined s of
                 (Inr resp, s') \<Rightarrow> (Inr resp, s')
               | (Inl e, s') \<Rightarrow>
                   if i + 1 < length (models cfg)
                   then generateContent cfg be sp prompt (i + 1)
                          (s'\<lparr>trace := trace s' @ [ModelFailed (models cfg ! i)]\<rparr>)
                   else (Inl e, s')))
       \<and> ((\<forall>n m k b. server_error_reply cfg (be n m k b)) \<longrightarrow>
            (\<exists>e st'. generateContent cfg be sp prompt 0 st = (Inl e, st')
               \<and> fetched_models (trace st') =
                   fetched_models (trace st) @
                   concat (map (replicate (maxRetries cfg)) (models cfg))
               \<and> failovers (trace st') = failovers (trace st) @ butlast (models cfg)
               \<and> (\<exists>k. e = reply_error
                      (be (fetches st' - 1) (last (models cfg)) k
                         (buildRequestBody sp prompt)))))"
proof (intro conjI allI impI)
  fix i s
  assume i: "i < length (models cfg)"
  then have "models cfg ! i \<noteq> []" using ms(2) by (metis nth_mem)
  with i show "generateContent cfg be sp prompt i s =
              (case callWithRetry_loop cfg be (models cfg ! i) (buildRequestBody sp prompt)
                      0 Undefined s of
                 (Inr resp, s') \<Rightarrow> (Inr resp, s')
               | (Inl e, s') \<Rightarrow>
                   if i + 1 < length (models cfg)
                   then generateContent cfg be sp prompt (i + 1)
                          (s'\<lparr>trace := trace s' @ [ModelFailed (models cfg ! i)]\<rparr>)
                   else (Inl e, s'))"
    by (subst generateContent.simps)
      (simp add: callWithRetry_def split: prod.splits sum.splits)
next
  assume all5: "\<forall>n m k b. server_error_reply cfg (be n m k b)"
  have i0: "0 < length (models cfg)" using ms(1) by simp
  from generateContent_server_errors[OF keys all5 mr ms(2) key i0, of sp prompt]
  show "\<exists>e st'. generateContent cfg be sp prompt 0 st = (Inl e, st')
               \<and> fetched_models (trace st') =
                   fetched_models (trace st) @
                   concat (map (replicate (maxRetries cfg)) (models cfg))
               \<and> failovers (trace st') = failovers (trace st) @ butlast (models cfg)
               \<and> (\<exists>k. e = reply_error
                      (be (fetches st' - 1) (last (models cfg)) k
                         (buildRequestBody sp prompt)))"
    by simp
qed

theorem generateContent_failover_cascade_witness:
  "[] \<notin> set (apiKeys example_config)
   \<and> currentKeyIndex example_state < length (apiKeys example_config)
   \<and> models example_config \<noteq> []
   \<and> [] \<notin> set (models example_config)
   \<and> 0 < maxRetries example_config
   \<and> (\<forall>n m k b. server_error_reply example_config (backend_503 n m k b))
   \<and> fst (generateContent example_config backend_503 [] ''hello'' 0 example_state)
       = Inl (Error ''unavailable'' (Some 503))
   \<and> fetched_models
        (trace (snd (generateContent example_config backend_503 [] ''hello'' 0 example_state)))
       = [''model-a'', ''model-a'', ''model-a'', ''model-b'', ''model-b'', ''model-b'',
          ''model-c'', ''model-c'', ''model-c'']
   \<and> failovers
        (trace (snd (generateContent example_config backend_503 [] ''hello'' 0 example_state)))
       = [''model-a'', ''model-b'']"
proof -
  have h1: "[] \<notin> set (apiKeys example_config)"
    and h2: "currentKeyIndex example_state < length (apiKeys example_config)"
    and h3: "models example_config \<noteq> []"
    and h4: "[] \<notin> set (models example_config)"
    and h5: "0 < maxRetries example_config"
    by (simp_all add: example_config_def example_state_def)
  have h6: "\<forall>n m k b. server_error_reply example_config (backend_503 n m k b)"
    by (simp add: server_error_reply_def backend_503_def example_config_def)
  from generateContent_failover_cascade[OF h1 h2 h3 h4 h5, of backend_503 "[]" "''hello''"] h6
  obtain e st' where
    g: "generateContent example_config backend_503 [] ''hello'' 0 example_state = (Inl e, st')"
    and f: "fetched_models (trace st') =
              fetched_models (trace example_state) @
              concat (map (replicate (maxRetries example_config)) (models example_config))"
    and o: "failovers (trace st') =
              failovers (trace example_state) @ butlast (models example_config)"
    and e: "\<exists>k. e = reply_error
              (backend_503 (fetches st' - 1) (last (models example_config)) k
                 (buildRequestBody [] ''hello''))"
    by blast
  from e have e': "e = Error ''unavailable'' (Some 503)"
    by (simp add: reply_error_def backend_503_def)
  have r3: "replicate (3::nat) x = [x, x, x]" for x :: string
    by (simp add: numeral_3_eq_3)
  from f have f': "fetched_models (trace st') =
      [''model-a'', ''model-a'', ''model-a'', ''model-b'', ''model-b'', ''model-b'',
       ''model-c'', ''model-c'', ''model-c'']"
    by (simp add: example_config_def example_state_def r3)
  from o have o': "failovers (trace st') = [''model-a'', ''model-b'']"
    by (simp add: example_config_def example_state_def)
  show ?thesis
    using h1 h2 h3 h4 h5 h6 by (simp add: g e' f' o')
qed
text \<open>A request whose reply takes the timeout or longer is aborted: one fetch, status 408.\<close>

lemma makeRequest_timeout:
  assumes "currentKeyIndex st < length (apiKeys cfg)"
    and "apiKeys cfg ! currentKeyIndex st \<noteq> []"
    and "timeout cfg \<le> latency (be (fetches st) model (apiKeys cfg ! currentKeyIndex st) body)"
  shows "makeRequest cfg be model body st =
           (Inl (timeout_error cfg),
            st\<lparr>fetches := fetches st + 1,
               trace := trace st @ [Fetch (fetches st) model (apiKeys cfg ! currentKeyIndex st)],
               clock := clock st + int (timeout cfg)\<rparr>)"
  using assms by (simp add: makeRequest_def Let_def timeout_error_def)

lemma attempt_timeout:
  assumes "currentKeyIndex st < length (apiKeys cfg)"
    and "apiKeys cfg ! currentKeyIndex st \<noteq> []"
    and "timeout cfg \<le> latency (be (fetches st) model (apiKeys cfg ! currentKeyIndex st) body)"
  shows "\<exists>st'. attempt cfg be model body retry st = (Thrown (timeout_error cfg), st')
           \<and> fetches st' = fetches st + 1
           \<and> fetched_models (trace st') = fetched_models (trace st) @ [model]
           \<and> backoffs (trace st') = backoffs (trace st)"
proof -
  define st1 where "st1 = applyRateLimit cfg st"
  have f: "currentKeyIndex st1 = currentKeyIndex st" "fetches st1 = fetches st"
    "fetched_models (trace st1) = fetched_models (trace st)"
    "backoffs (trace st1) = backoffs (trace st)"
    by (simp_all add: st1_def applyRateLimit_fields applyRateLimit_trace)
  have mk: "makeRequest cfg be model body st1 =
           (Inl (timeout_error cfg),
            st1\<lparr>fetches := fetches st1 + 1,
               trace := trace st1 @ [Fetch (fetches st1) model (apiKeys cfg ! currentKeyIndex st1)],
               clock := clock st1 + int (timeout cfg)\<rparr>)"
    using assms by (intro makeRequest_timeout) (simp_all add: f)
  have cls: "\<not> status_is (timeout_error cfg) 429" "\<not> status_in (timeout_error cfg) 500 600"
    "status_in (timeout_error cfg) 400 500"
    by (simp_all add: timeout_error_def status_is_def status_in_def)
  show ?thesis
    unfolding attempt_def st1_def[symmetric]
    by (simp add: mk cls f Let_def fetched_models_append backoffs_append)
qed

text \<open>
  Claim C4, as the code has it. A request that exceeds the per-call timeout yields a
  timeout error with status 408. The retry loop treats that status as a client error:
  whichever attempt times out, the loop rethrows the error after this single request,
  without a backoff wait and without a further attempt on the same model.
  \<open>generateContent\<close> then moves on to the next model of the list if there is one and
  otherwise rejects with the timeout error.
\<close>

theorem timeout_fails_model_without_retry:
  assumes key: "currentKeyIndex st < length (apiKeys cfg)"
      "apiKeys cfg ! currentKeyIndex st \<noteq> []"
    and i: "i < length (models cfg)" "models cfg ! i \<noteq> []"
    and retry: "retry < maxRetries cfg"
    and slow: "timeout cfg \<le>
        latency (be (fetches st) (models cfg ! i) (apiKeys cfg ! currentKeyIndex st)
                   (buildRequestBody sp prompt))"
  shows "\<exists>st'. callWithRetry_loop cfg be (models cfg ! i) (buildRequestBody sp prompt)
                 retry lastError st = (Inl (timeout_error cfg), st')
           \<and> fetches st' = fetches st + 1
           \<and> fetched_models (trace st') = fetched_models (trace st) @ [models cfg ! i]
           \<and> backoffs (trace st') = backoffs (trace st)
           \<and> (retry = 0 \<and> lastError = Undefined \<longrightarrow>
                generateContent cfg be sp prompt i st =
                  (if i + 1 < length (models cfg)
                   then generateContent cfg be sp prompt (i + 1)
                          (st'\<lparr>trace := trace st' @ [ModelFailed (models cfg ! i)]\<rparr>)
                   else (Inl (timeout_error cfg), st')))"
proof -
  from attempt_timeout[where be = be and model = "models cfg ! i"
      and body = "buildRequestBody sp prompt" and retry = retry, OF key slow]
  obtain st' where a: "attempt cfg be (models cfg ! i) (buildRequestBody sp prompt) retry st =
                         (Thrown (timeout_error cfg), st')"
    and f: "fetches st' = fetches st + 1"
      "fetched_models (trace st') = fetched_models (trace st) @ [models cfg ! i]"
      "backoffs (trace st') = backoffs (trace st)"
    by blast
  have c: "callWithRetry_loop cfg be (models cfg ! i) (buildRequestBody sp prompt)
             retry lastError st = (Inl (timeout_error cfg), st')"
    using retry a by (subst callWithRetry_loop.simps) simp
  have g: "retry = 0 \<and> lastError = Undefined \<longrightarrow>
             generateContent cfg be sp prompt i st =
               (if i + 1 < length (models cfg)
                then generateContent cfg be sp prompt (i + 1)
                       (st'\<lparr>trace := trace st' @ [ModelFailed (models cfg ! i)]\<rparr>)
                else (Inl (timeout_error cfg), st'))"
  proof
    assume "retry = 0 \<and> lastError = Undefined"
    with c have "callWithRetry cfg be (models cfg ! i) (buildRequestBody sp prompt) st =
             (Inl (timeout_error cfg), st')"
      by (simp add: callWithRetry_def)
    with i show "generateContent cfg be sp prompt i st =
               (if i + 1 < length (models cfg)
                then generateContent cfg be sp prompt (i + 1)
                       (st'\<lparr>trace := trace st' @ [ModelFailed (models cfg ! i)]\<rparr>)
                else (Inl (timeout_error cfg), st'))"
      by (subst generateContent.simps) simp
  qed
  from c f g show ?thesis by blast
qed

theorem timeout_fails_model_without_retry_witness:
  "currentKeyIndex example_state < length (apiKeys example_config_one_model)
   \<and> apiKeys example_config_one_model ! currentKeyIndex example_state \<noteq> []
   \<and> 0 < length (models example_config_one_model)
   \<and> models example_config_one_model ! 0 \<noteq> []
   \<and> 0 < maxRetries example_config_one_model
   \<and> timeout example_config_one_model \<le>
        latency (backend_slow (fetches example_state) (models example_config_one_model ! 0)
                   (apiKeys example_config_one_model ! currentKeyIndex example_state)
                   (buildRequestBody [] ''hello''))
   \<and> fst (generateContent example_config_one_model backend_slow [] ''hello'' 0 example_state)
       = Inl (timeout_error example_config_one_model)
   \<and> fetches (snd (generateContent example_config_one_model backend_slow [] ''hello'' 0
                       example_state)) = 1"
proof -
  have h: "currentKeyIndex example_state < length (apiKeys example_config_one_model)"
    "apiKeys example_config_one_model ! currentKeyIndex example_state \<noteq> []"
    "0 < length (models example_config_one_model)"
    "models example_config_one_model ! 0 \<noteq> []"
    "0 < maxRetries example_config_one_model"
    "timeout example_config_one_model \<le>
        latency (backend_slow (fetches example_state) (models example_config_one_model ! 0)
                   (apiKeys example_config_one_model ! currentKeyIndex example_state)
                   (buildRequestBody [] ''hello''))"
    by (simp_all add: example_config_one_model_def example_config_def example_state_def
        backend_slow_def)
  have len: "length (models example_config_one_model) = 1"
    by (simp add: example_config_one_model_def)
  have f0: "fetches example_state = 0"
    by (simp add: example_state_def)
  from timeout_fails_model_without_retry[where be = backend_slow and sp = "[]"
      and prompt = "''hello''" and i = 0 and retry = 0 and lastError = Undefined, OF h]
  obtain st' where
    "fetches st' = fetches example_state + 1"
    "generateContent example_config_one_model backend_slow [] ''hello'' 0 example_state =
       (Inl (timeout_error example_config_one_model), st')"
    unfolding len by auto
  then show ?thesis using h by (simp add: f0)
qed

text \<open>
  The claim as stated fails: with \<open>maxRetries = 3\<close>, one model and a service that
  answers after 70 seconds (timeout 60 seconds), the call is rejected with the timeout
  error after a single request and no backoff wait.
\<close>

theorem timeout_retry_counterexample:
  "maxRetries example_config_one_model = 3
   \<and> fst (generateContent example_config_one_model backend_slow [] ''hello'' 0 example_state)
       = Inl (Error ''Request timeout after 60000ms'' (Some 408))
   \<and> trace (snd (generateContent example_config_one_model backend_slow [] ''hello'' 0
                    example_state))
       = [Fetch 0 ''model-a'' ''key-primary'']"
  by (simp add: client_eval example_defs)
text \<open>
  Without any credential \<^verbatim>\<open>makeRequest\<close> throws an error that has no status, so the
  attempt ends in the generic branch of the \<^verbatim>\<open>catch\<close> block: a backoff wait unless this
  was the last iteration, then the next iteration.
\<close>

lemma attempt_no_key:
  assumes "apiKeys cfg = []"
  shows "attempt cfg be model body retry st =
           (Continue no_key_error,
            if retry + 1 < maxRetries cfg
            then sleep Backoff (retryDelay cfg * 2 ^ retry) (applyRateLimit cfg st)
            else applyRateLimit cfg st)"
  using assms
  by (simp add: attempt_def makeRequest_def no_key_error_def status_is_def status_in_def)

lemma callWithRetry_loop_no_key:
  assumes nk: "apiKeys cfg = []"
  shows "\<exists>st'. callWithRetry_loop cfg be model body retry lastError st =
                 (Inl (if retry < maxRetries cfg then no_key_error else lastError), st')
           \<and> fetches st' = fetches st
           \<and> fetched_models (trace st') = fetched_models (trace st)
           \<and> failovers (trace st') = failovers (trace st)
           \<and> backoffs (trace st') = backoffs (trace st) @ generic_backoffs cfg retry"
proof (induction "maxRetries cfg - retry" arbitrary: retry lastError st)
  case 0
  then show ?case
    by (subst callWithRetry_loop.simps) (simp add: generic_backoffs_def)
next
  case (Suc d)
  from Suc.hyps(2) have lt: "retry < maxRetries cfg" by simp
  define st1 where "st1 = (if retry + 1 < maxRetries cfg
            then sleep Backoff (retryDelay cfg * 2 ^ retry) (applyRateLimit cfg st)
            else applyRateLimit cfg st)"
  have a: "attempt cfg be model body retry st = (Continue no_key_error, st1)"
    by (simp add: attempt_no_key[OF nk] st1_def)
  have f1: "fetches st1 = fetches st"
    "fetched_models (trace st1) = fetched_models (trace st)"
    "failovers (trace st1) = failovers (trace st)"
    "backoffs (trace st1) = backoffs (trace st) @
       (if retry + 1 < maxRetries cfg then [retryDelay cfg * 2 ^ retry] else [])"
    by (simp_all add: st1_def sleep_def applyRateLimit_fields applyRateLimit_trace
        fetched_models_append failovers_append backoffs_append)
  from Suc.hyps(2) have d: "d = maxRetries cfg - Suc retry" by simp
  from Suc.hyps(1)[OF d, of no_key_error st1]
  obtain st' where
    l: "callWithRetry_loop cfg be model body (Suc retry) no_key_error st1 =
          (Inl (if Suc retry < maxRetries cfg then no_key_error else no_key_error), st')"
    and f': "fetches st' = fetches st1"
      "fetched_models (trace st') = fetched_models (trace st1)"
      "failovers (trace st') = failovers (trace st1)"
      "backoffs (trace st') = backoffs (trace st1) @ generic_backoffs cfg (Suc retry)"
    by blast
  have unfold: "callWithRetry_loop cfg be model body retry lastError st =
                  (Inl no_key_error, st')"
    using lt a l by (subst callWithRetry_loop.simps) simp
  have gb: "generic_backoffs cfg retry =
      (if retry + 1 < maxRetries cfg then [retryDelay cfg * 2 ^ retry] else []) @
      generic_backoffs cfg (Suc retry)"
    by (auto simp: generic_backoffs_def upt_rec[of retry])
  show ?case
    using unfold lt f' f1 gb by simp
qed

lemma generateContent_no_key:
  assumes nk: "apiKeys cfg = []"
    and mr: "0 < maxRetries cfg"
    and ms: "[] \<notin> set (models cfg)"
    and i: "i < length (models cfg)"
  shows "\<exists>st'. generateContent cfg be sp prompt i st = (Inl no_key_error, st')
          \<and> fetches st' = fetches st
          \<and> fetched_models (trace st') = fetched_models (trace st)
          \<and> failovers (trace st') = failovers (trace st) @ butlast (drop i (models cfg))
          \<and> backoffs (trace st') =
              backoffs (trace st) @
              concat (map (\<lambda>m. generic_backoffs cfg 0) (drop i (models cfg)))"
  using i
proof (induction "length (models cfg) - i" arbitrary: i st)
  case 0
  then show ?case by simp
next
  case (Suc d)
  let ?m = "models cfg ! i"
  let ?body = "buildRequestBody sp prompt"
  have m: "?m \<noteq> []" using ms Suc.prems by (metis nth_mem)
  from callWithRetry_loop_no_key[OF nk, of be ?m ?body 0 Undefined st] mr
  obtain st1 where c: "callWithRetry cfg be ?m ?body st = (Inl no_key_error, st1)"
    and f1: "fetches st1 = fetches st"
      "fetched_models (trace st1) = fetched_models (trace st)"
      "failovers (trace st1) = failovers (trace st)"
      "backoffs (trace st1) = backoffs (trace st) @ generic_backoffs cfg 0"
    by (auto simp: callWithRetry_def)
  have dr: "drop i (models cfg) = ?m # drop (Suc i) (models cfg)"
    using Suc.prems by (simp add: Cons_nth_drop_Suc)
  show ?case
  proof (cases "Suc i < length (models cfg)")
    case False
    then have "drop (Suc i) (models cfg) = []" by simp
    with dr have dr1: "drop i (models cfg) = [?m]" by simp
    have "generateContent cfg be sp prompt i st = (Inl no_key_error, st1)"
      using Suc.prems m c False by (subst generateContent.simps) simp
    then show ?thesis
      using f1 dr1 by simp
  next
    case True
    define st2 where "st2 = st1\<lparr>trace := trace st1 @ [ModelFailed ?m]\<rparr>"
    have d: "d = length (models cfg) - Suc i" using Suc.hyps(2) by simp
    from Suc.hyps(1)[OF d True, of st2]
    obtain st' where g: "generateContent cfg be sp prompt (Suc i) st2 = (Inl no_key_error, st')"
      and f': "fetches st' = fetches st2"
        "fetched_models (trace st') = fetched_models (trace st2)"
        "failovers (trace st') = failovers (trace st2) @ butlast (drop (Suc i) (models cfg))"
        "backoffs (trace st') =
              backoffs (trace st2) @
              concat (map (\<lambda>m. generic_backoffs cfg 0) (drop (Suc i) (models cfg)))"
      by blast
    have ne: "drop (Suc i) (models cfg) \<noteq> []" using True by simp
    have "generateContent cfg be sp prompt i st = (Inl no_key_error, st')"
      using Suc.prems m c True g
      by (subst generateContent.simps) (simp add: st2_def)
    moreover have "fetches st' = fetches st"
      "fetched_models (trace st') = fetched_models (trace st)"
      using f' f1 by (simp_all add: st2_def fetched_models_append)
    moreover have "failovers (trace st') =
        failovers (trace st) @ butlast (drop i (models cfg))"
      using f' f1 ne by (simp add: st2_def dr failovers_append)
    moreover have "backoffs (trace st') =
              backoffs (trace st) @
              concat (map (\<lambda>m. generic_backoffs cfg 0) (drop i (models cfg)))"
      using f' f1 by (simp add: st2_def dr backoffs_append)
    ultimately show ?thesis by blast
  qed
qed

text \<open>
  Claim C5, as the code has it. When no model is available the call rejects at once
  and nothing is attempted: the state is unchanged. When no credential is available no
  request is ever sent, but the call is not rejected at once: for every model of the
  list in turn the retry loop runs all its \<open>maxRetries\<close> iterations, with the generic
  exponential backoff between them, before the call rejects with the missing-key error.
\<close>

theorem configuration_failures:
  "((\<not> i < length (models cfg) \<or> models cfg ! i = []) \<longrightarrow>
      generateContent cfg be sp prompt i st = (Inl no_model_error, st))
   \<and> (apiKeys cfg = [] \<and> models cfg \<noteq> [] \<and> [] \<notin> set (models cfg) \<and> 0 < maxRetries cfg \<longrightarrow>
        (\<exists>st'. generateContent cfg be sp prompt 0 st = (Inl no_key_error, st')
           \<and> fetches st' = fetches st
           \<and> fetched_models (trace st') = fetched_models (trace st)
           \<and> failovers (trace st') = failovers (trace st) @ butlast (models cfg)
           \<and> backoffs (trace st') =
               backoffs (trace st) @
               concat (map (\<lambda>m. generic_backoffs cfg 0) (models cfg))))"
proof (intro conjI impI)
  assume "\<not> i < length (models cfg) \<or> models cfg ! i = []"
  then show "generateContent cfg be sp prompt i st = (Inl no_model_error, st)"
    by (subst generateContent.simps) (auto simp: no_model_error_def)
next
  assume a: "apiKeys cfg = [] \<and> models cfg \<noteq> [] \<and> [] \<notin> set (models cfg) \<and> 0 < maxRetries cfg"
  then have "0 < length (models cfg)" by simp
  from generateContent_no_key[of cfg 0 be sp prompt st, OF _ _ _ this] a
  show "\<exists>st'. generateContent cfg be sp prompt 0 st = (Inl no_key_error, st')
           \<and> fetches st' = fetches st
           \<and> fetched_models (trace st') = fetched_models (trace st)
           \<and> failovers (trace st') = failovers (trace st) @ butlast (models cfg)
           \<and> backoffs (trace st') =
               backoffs (trace st) @
               concat (map (\<lambda>m. generic_backoffs cfg 0) (models cfg))"
    by simp
qed

theorem configuration_failures_witness:
  "length (models example_config_no_key) \<le> 2
   \<and> generateContent example_config_no_key backend_503 [] ''hello'' 2 example_state
       = (Inl no_model_error, example_state)
   \<and> apiKeys example_config_no_key = []
   \<and> models example_config_no_key \<noteq> []
   \<and> [] \<notin> set (models example_config_no_key)
   \<and> 0 < maxRetries example_config_no_key
   \<and> fst (generateContent example_config_no_key backend_503 [] ''hello'' 0 example_state)
       = Inl no_key_error
   \<and> backoffs (trace (snd (generateContent example_config_no_key backend_503 [] ''hello'' 0
        example_state))) = [2000, 4000, 2000, 4000]
   \<and> failovers (trace (snd (generateContent example_config_no_key backend_503 [] ''hello'' 0
        example_state))) = [''model-a'']"
proof -
  have h1: "\<not> 2 < length (models example_config_no_key) \<or> models example_config_no_key ! 2 = []"
    by (simp add: example_defs)
  have h2: "apiKeys example_config_no_key = [] \<and> models example_config_no_key \<noteq> []
      \<and> [] \<notin> set (models example_config_no_key) \<and> 0 < maxRetries example_config_no_key"
    by (simp add: example_defs)
  note t = configuration_failures[of 2 example_config_no_key backend_503 "[]" "''hello''"
      example_state]
  from t h1 have g2: "generateContent example_config_no_key backend_503 [] ''hello'' 2
      example_state = (Inl no_model_error, example_state)"
    by blast
  from t h2 obtain st' where
    g0: "generateContent example_config_no_key backend_503 [] ''hello'' 0 example_state
           = (Inl no_key_error, st')"
    and o: "failovers (trace st') =
              failovers (trace example_state) @ butlast (models example_config_no_key)"
    and b: "backoffs (trace st') =
               backoffs (trace example_state) @
               concat (map (\<lambda>m. generic_backoffs example_config_no_key 0)
                 (models example_config_no_key))"
    by blast
  have gb: "generic_backoffs example_config_no_key 0 = [2000, 4000]"
    by (simp add: generic_backoffs_def example_defs upt_rec)
  from o have o': "failovers (trace st') = [''model-a'']"
    by (simp add: example_defs)
  from b have b': "backoffs (trace st') = [2000, 4000, 2000, 4000]"
    unfolding gb by (simp add: example_defs)
  have h0: "length (models example_config_no_key) \<le> 2"
    by (simp add: example_defs)
  show ?thesis
    using h0 h2 by (simp add: g2 g0 o' b')
qed

text \<open>
  The claim as stated fails for a missing credential: with no key, two models and
  \<open>maxRetries = 3\<close> the call waits through the backoff schedule of both models and
  logs the failover from the first model to the second before it rejects.
\<close>

theorem missing_credential_counterexample:
  "apiKeys example_config_no_key = []
   \<and> fst (generateContent example_config_no_key backend_503 [] ''hello'' 0 example_state)
       = Inl (Error ''No API key available'' None)
   \<and> trace (snd (generateContent example_config_no_key backend_503 [] ''hello'' 0
                    example_state))
       = [Backoff 2000, Backoff 4000, ModelFailed ''model-a'', Backoff 2000, Backoff 4000]"
  by (simp add: client_eval example_defs)
text \<open>
  Claim C6, as the code has it. For every attempt that fails with status 429 or with a
  5xx status while a backup credential exists and the primary one is active, the client
  makes the backup credential the active one before the next attempt. After a 429 it goes
  on to the next attempt with no backoff wait; after a 5xx status it still waits the
  exponential backoff \<open>retryDelay * 2 ^ retry\<close> first.
\<close>

theorem credential_switch_on_failure:
  assumes prim: "currentKeyIndex st = 0"
    and backup: "1 < length (apiKeys cfg)"
    and k0: "apiKeys cfg ! 0 \<noteq> []"
    and lat: "latency (be (fetches st) model (apiKeys cfg ! 0) body) < timeout cfg"
    and res: "result (be (fetches st) model (apiKeys cfg ! 0) body) = Responded s msg pl"
    and s: "s = 429 \<or> (500 \<le> s \<and> s < 600)"
  shows "\<exists>st'. attempt cfg be model body retry st = (Continue (Error msg (Some s)), st')
           \<and> currentKeyIndex st' = 1
           \<and> backoffs (trace st') =
               backoffs (trace st) @ (if s = 429 then [] else [retryDelay cfg * 2 ^ retry])"
proof -
  define st1 where "st1 = applyRateLimit cfg st"
  define rp where "rp = be (fetches st) model (apiKeys cfg ! 0) body"
  have f: "currentKeyIndex st1 = 0" "fetches st1 = fetches st"
    "backoffs (trace st1) = backoffs (trace st)"
    by (simp_all add: st1_def applyRateLimit_fields applyRateLimit_trace prim)
  define st3 where "st3 = st1\<lparr>fetches := fetches st1 + 1,
      trace := trace st1 @ [Fetch (fetches st1) model (apiKeys cfg ! 0)],
      clock := clock st1 + int (latency rp),
      lastRequest := clock st1 + int (latency rp),
      requestCount := requestCount st1 + 1\<rparr>"
  have notok: "\<not> (200 \<le> s \<and> s \<le> 299)" using s by auto
  have pos: "0 < length (apiKeys cfg)" using backup by linarith
  have mk: "makeRequest cfg be model body st1 = (Inl (Error msg (Some s)), st3)"
    using pos k0 lat res notok
    by (simp add: makeRequest_def Let_def f rp_def[symmetric] st3_def)
  have st3_fields: "currentKeyIndex st3 = 0" "backoffs (trace st3) = backoffs (trace st)"
    by (simp_all add: st3_def f backoffs_append)
  show ?thesis
  proof (cases "s = 429")
    case True
    then have "status_is (Error msg (Some s)) 429" by (simp add: status_is_def)
    then show ?thesis
      unfolding attempt_def st1_def[symmetric]
      using True backup st3_fields by (simp add: mk Let_def)
  next
    case False
    with s have "\<not> status_is (Error msg (Some s)) 429" "status_in (Error msg (Some s)) 500 600"
      by (simp_all add: status_is_def status_in_def)
    then show ?thesis
      unfolding attempt_def st1_def[symmetric]
      using False backup st3_fields by (simp add: mk Let_def sleep_def backoffs_append)
  qed
qed

theorem credential_switch_on_failure_witness:
  "currentKeyIndex example_state = 0
   \<and> 1 < length (apiKeys example_config)
   \<and> apiKeys example_config ! 0 \<noteq> []
   \<and> latency (backend_429 (fetches example_state) ''model-a'' (apiKeys example_config ! 0)
        ''hello'') < timeout example_config
   \<and> result (backend_429 (fetches example_state) ''model-a'' (apiKeys example_config ! 0)
        ''hello'') = Responded 429 ''quota'' NoCandidate
   \<and> fst (attempt example_config backend_429 ''model-a'' ''hello'' 0 example_state)
        = Continue (Error ''quota'' (Some 429))
   \<and> currentKeyIndex (snd (attempt example_config backend_429 ''model-a'' ''hello'' 0
        example_state)) = 1
   \<and> backoffs (trace (snd (attempt example_config backend_429 ''model-a'' ''hello'' 0
        example_state))) = []"
proof -
  have h: "currentKeyIndex example_state = 0"
    "1 < length (apiKeys example_config)"
    "apiKeys example_config ! 0 \<noteq> []"
    "latency (backend_429 (fetches example_state) ''model-a'' (apiKeys example_config ! 0)
        ''hello'') < timeout example_config"
    "result (backend_429 (fetches example_state) ''model-a'' (apiKeys example_config ! 0)
        ''hello'') = Responded 429 ''quota'' NoCandidate"
    by (simp_all add: example_defs)
  have s: "(429::nat) = 429 \<or> (500 \<le> (429::nat) \<and> (429::nat) < 600)" by simp
  have tr0: "backoffs (trace example_state) = []" by (simp add: example_defs)
  from credential_switch_on_failure[where be = backend_429 and model = "''model-a''"
      and body = "''hello''" and retry = 0, OF h s]
  obtain st' where
    "attempt example_config backend_429 ''model-a'' ''hello'' 0 example_state =
       (Continue (Error ''quota'' (Some 429)), st')"
    "currentKeyIndex st' = 1"
    "backoffs (trace st') = []"
    by (auto simp: tr0)
  then show ?thesis using h by simp
qed

text \<open>
  The claim as stated fails for a server error: with the primary credential active and
  a backup present, a 503 on the first attempt switches the credential and is followed
  by a backoff wait of \<open>retryDelay = 2000\<close> milliseconds.
\<close>

theorem credential_switch_no_wait_counterexample:
  "currentKeyIndex example_state = 0
   \<and> 1 < length (apiKeys example_config)
   \<and> fst (attempt example_config backend_503 ''model-a'' ''hello'' 0 example_state)
        = Continue (Error ''unavailable'' (Some 503))
   \<and> currentKeyIndex (snd (attempt example_config backend_503 ''model-a'' ''hello'' 0
        example_state)) = 1
   \<and> trace (snd (attempt example_config backend_503 ''model-a'' ''hello'' 0 example_state))
        = [Fetch 0 ''model-a'' ''key-primary'', Backoff 2000]"
  by (simp add: client_eval example_defs)
section \<open>Properties of the rate limiter\<close>

lemma applyRateLimit_clock:
  "clock (applyRateLimit cfg st) = slot (rateLimitDelay cfg) (lastRequest st) (clock st)"
  by (simp add: applyRateLimit_def slot_def sleep_def Let_def)

lemma slot_max: "slot delay lastReq now = max now (lastReq + int delay)"
  by (simp add: slot_def max_def)

lemma limiter_run_arrivals:
  "limiter_run cfg st (map (\<lambda>(w, t). Arrive w t) as) =
     map (\<lambda>(w, t). (w, max t (lastRequest st + int (rateLimitDelay cfg)))) as"
  by (induction as) (auto simp: applyRateLimit_clock slot_max)

text \<open>
  Claim C9, as the code has it. A caller of the limiter is suspended until at least the
  configured interval has elapsed since the last recorded response, as read when the
  caller enters. The limiter records nothing itself: \<open>lastRequest\<close> and the request
  count are written by \<open>makeRequest\<close> at the moment a response arrives (not at dispatch,
  and not at all when the request is aborted or the network fails). Callers that enter
  while no response arrives all read the same \<open>lastRequest\<close>: each is released at the
  later of its own arrival and \<open>lastRequest + rateLimitDelay\<close>, so their dispatch times
  are not spaced from each other.
\<close>

theorem rate_limiter_pacing:
  "clock st \<le> clock (applyRateLimit cfg st)
   \<and> lastRequest st + int (rateLimitDelay cfg) \<le> clock (applyRateLimit cfg st)
   \<and> lastRequest (applyRateLimit cfg st) = lastRequest st
   \<and> requestCount (applyRateLimit cfg st) = requestCount st
   \<and> (currentKeyIndex st < length (apiKeys cfg) \<and> apiKeys cfg ! currentKeyIndex st \<noteq> []
        \<and> latency (be (fetches st) model (apiKeys cfg ! currentKeyIndex st) body) < timeout cfg
        \<and> result (be (fetches st) model (apiKeys cfg ! currentKeyIndex st) body)
            = Responded s msg pl
      \<longrightarrow> lastRequest (snd (makeRequest cfg be model body st)) =
            clock st + int (latency (be (fetches st) model (apiKeys cfg ! currentKeyIndex st) body))
          \<and> requestCount (snd (makeRequest cfg be model body st)) = requestCount st + 1)
   \<and> limiter_run cfg st (map (\<lambda>(w, t). Arrive w t) as) =
       map (\<lambda>(w, t). (w, max t (lastRequest st + int (rateLimitDelay cfg)))) as"
proof (intro conjI impI)
  show "clock st \<le> clock (applyRateLimit cfg st)"
    by (simp add: applyRateLimit_clock slot_max)
  show "lastRequest st + int (rateLimitDelay cfg) \<le> clock (applyRateLimit cfg st)"
    by (simp add: applyRateLimit_clock slot_max)
  show "lastRequest (applyRateLimit cfg st) = lastRequest st"
    "requestCount (applyRateLimit cfg st) = requestCount st"
    by (simp_all add: applyRateLimit_fields)
  show "limiter_run cfg st (map (\<lambda>(w, t). Arrive w t) as) =
       map (\<lambda>(w, t). (w, max t (lastRequest st + int (rateLimitDelay cfg)))) as"
    by (rule limiter_run_arrivals)
next
  assume a: "currentKeyIndex st < length (apiKeys cfg) \<and> apiKeys cfg ! currentKeyIndex st \<noteq> []
        \<and> latency (be (fetches st) model (apiKeys cfg ! currentKeyIndex st) body) < timeout cfg
        \<and> result (be (fetches st) model (apiKeys cfg ! currentKeyIndex st) body)
            = Responded s msg pl"
  then show "lastRequest (snd (makeRequest cfg be model body st)) =
            clock st + int (latency (be (fetches st) model (apiKeys cfg ! currentKeyIndex st) body))"
    by (simp add: makeRequest_def Let_def split: payload.splits)
  from a show "requestCount (snd (makeRequest cfg be model body st)) = requestCount st + 1"
    by (simp add: makeRequest_def Let_def split: payload.splits)
qed

theorem rate_limiter_pacing_witness:
  "currentKeyIndex example_state < length (apiKeys example_config)
   \<and> apiKeys example_config ! currentKeyIndex example_state \<noteq> []
   \<and> latency (backend_ok (fetches example_state) ''model-a''
        (apiKeys example_config ! currentKeyIndex example_state) ''hello'')
       < timeout example_config
   \<and> result (backend_ok (fetches example_state) ''model-a''
        (apiKeys example_config ! currentKeyIndex example_state) ''hello'')
       = Responded 200 [] (Candidate ''spoken: hello'' ''STOP'')
   \<and> lastRequest (snd (makeRequest example_config backend_ok ''model-a'' ''hello''
        example_state)) = 1700000000100
   \<and> requestCount (snd (makeRequest example_config backend_ok ''model-a'' ''hello''
        example_state)) = 1"
proof -
  have h: "currentKeyIndex example_state < length (apiKeys example_config)
   \<and> apiKeys example_config ! currentKeyIndex example_state \<noteq> []
   \<and> latency (backend_ok (fetches example_state) ''model-a''
        (apiKeys example_config ! currentKeyIndex example_state) ''hello'')
       < timeout example_config
   \<and> result (backend_ok (fetches example_state) ''model-a''
        (apiKeys example_config ! currentKeyIndex example_state) ''hello'')
       = Responded 200 [] (Candidate ''spoken: hello'' ''STOP'')"
    by (simp add: example_defs)
  have v: "clock example_state + int (latency (backend_ok (fetches example_state) ''model-a''
        (apiKeys example_config ! currentKeyIndex example_state) ''hello'')) = 1700000000100"
    "requestCount example_state + 1 = 1"
    by (simp_all add: example_defs)
  from rate_limiter_pacing[of example_state example_config backend_ok "''model-a''" "''hello''"
      200 "[]" "Candidate ''spoken: hello'' ''STOP''"] h
  have "lastRequest (snd (makeRequest example_config backend_ok ''model-a'' ''hello''
        example_state)) = 1700000000100
     \<and> requestCount (snd (makeRequest example_config backend_ok ''model-a'' ''hello''
        example_state)) = 1"
    unfolding v by blast
  with h show ?thesis by simp
qed

text \<open>
  The claim as stated fails under concurrency: two workers that enter the limiter in
  the same tick (as the workers that \<open>processBatches\<close> starts do) both read the same
  \<open>lastRequest\<close> and are both released at once, although the interval is 1000
  milliseconds.
\<close>

theorem rate_limiter_concurrent_counterexample:
  "rateLimitDelay example_config = 1000
   \<and> limiter_run example_config example_state
        [Arrive 0 1700000000000, Arrive 1 1700000000000]
       = [(0, 1700000000000), (1, 1700000000000)]"
  by (simp add: applyRateLimit_def example_defs)
section \<open>Properties of the worker pool\<close>

lemma map_keys_Nil: "map_keys [] = {}"
  by (simp add: map_keys_def)

lemma map_keys_update: "map_keys (AList.update k v al) = insert k (map_keys al)"
  unfolding map_keys_def by (induction al) auto

lemma map_keys_delete: "map_keys (AList.delete k al) \<subseteq> map_keys al"
  unfolding map_keys_def by (induction al) auto

lemma set_pc_fields:
  "queue (set_pc w c p) = queue p" "processing (set_pc w c p) = processing p"
  "completed (set_pc w c p) = completed p" "failed (set_pc w c p) = failed p"
  "cancelled (set_pc w c p) = cancelled p" "paused (set_pc w c p) = paused p"
  "length (workers (set_pc w c p)) = length (workers p)"
  "recorded (set_pc w c p) = recorded p"
  by (simp_all add: set_pc_def recorded_def)

lemma set_pc_workerId: "k < length (workers p) \<Longrightarrow> workerId (set_pc k' c p) k = workerId p k"
  by (cases "k' = k") (simp_all add: set_pc_def workerId_def)

lemma position_set_pc_other: "k' \<noteq> k \<Longrightarrow> position (set_pc k' c p) k = position p k"
  by (simp add: set_pc_def position_def)

lemma in_flight_set_pc:
  "in_flight (set_pc w c p) \<subseteq> in_flight p \<union> (case c of InFlight b \<Rightarrow> {batch_id b} | _ \<Rightarrow> {})"
proof -
  define S where "S = snd ` set (workers p)"
  define S' where "S' = snd ` set (workers (set_pc w c p))"
  have "set ((workers p)[w := (workerId p w, c)]) \<subseteq>
          insert (workerId p w, c) (set (workers p))"
    by (rule set_update_subset_insert)
  then have sub: "S' \<subseteq> insert c S"
    unfolding S_def S'_def set_pc_def by force
  have "in_flight (set_pc w c p) = {batch_id b | b. InFlight b \<in> S'}"
    "in_flight p = {batch_id b | b. InFlight b \<in> S}"
    by (simp_all add: in_flight_def S_def S'_def)
  with sub show ?thesis
    by (cases c) auto
qed

lemma in_flight_set_pc_idle:
  assumes "c = Head \<or> c = Sleeping \<or> c = Finished"
  shows "in_flight (set_pc w c p) \<subseteq> in_flight p"
  using in_flight_set_pc[of w c p] assms by auto

lemma serving_in_flight: "serving p w b \<Longrightarrow> batch_id b \<in> in_flight p"
proof -
  assume "serving p w b"
  then have "workers p ! w \<in> set (workers p)" "snd (workers p ! w) = InFlight b"
    by (simp_all add: serving_def position_def)
  then have "InFlight b \<in> snd ` set (workers p)" by force
  then show ?thesis by (auto simp: in_flight_def)
qed

lemma pool_inv_idle:
  assumes "pool_inv p" and "c = Head \<or> c = Sleeping \<or> c = Finished"
  shows "pool_inv (set_pc w c p)"
  using assms(1) in_flight_set_pc_idle[OF assms(2), of w p]
  by (auto simp: pool_inv_def set_pc_fields)

lemma pool_inv_dequeue:
  assumes "pool_inv p"
  shows "pool_inv (dequeue w p)"
proof (cases "queue p")
  case Nil
  then show ?thesis using assms by (simp add: dequeue_def pool_inv_idle)
next
  case (Cons b q)
  define p1 where "p1 = p\<lparr>queue := q,
      processing := AList.update (batch_id b) (b, workerId p w) (processing p)\<rparr>"
  have d: "dequeue w p = set_pc w (InFlight b) p1"
    by (simp add: dequeue_def Cons p1_def)
  have wi: "workerId p1 w = workerId p w"
    by (simp add: p1_def workerId_def)
  have fl: "in_flight (set_pc w (InFlight b) p1) \<subseteq> insert (batch_id b) (in_flight p)"
    using in_flight_set_pc[of w "InFlight b" p1] by (auto simp: p1_def in_flight_def)
  have nb: "batch_id b \<notin> batch_id ` set q" and dq: "distinct (map batch_id q)"
    and disj: "batch_id ` set q \<inter> (map_keys (processing p) \<union> recorded p \<union> in_flight p) = {}"
    using assms by (auto simp: pool_inv_def Cons)
  have "batch_id ` set q \<inter>
          (insert (batch_id b) (map_keys (processing p)) \<union> recorded p \<union>
           insert (batch_id b) (in_flight p)) = {}"
    using nb disj by auto
  with fl have "batch_id ` set q \<inter>
          (insert (batch_id b) (map_keys (processing p)) \<union> recorded p \<union>
           in_flight (set_pc w (InFlight b) p1)) = {}"
    by blast
  then show ?thesis
    unfolding d pool_inv_def
    using dq by (simp add: set_pc_fields p1_def map_keys_update recorded_def)
qed

lemma pool_inv_worker_step:
  assumes "pool_inv p" and "worker_step w p = Some p'"
  shows "pool_inv p'"
  using assms
  by (auto simp: worker_step_def pool_inv_idle pool_inv_dequeue split: if_splits pc.splits)

lemma pool_inv_after_batch:
  assumes "pool_inv p"
  shows "pool_inv (after_batch w p)"
  using assms by (simp add: after_batch_def pool_inv_idle)

lemma pool_inv_settle:
  assumes inv: "pool_inv p" and s: "settle w outcome p = Some p'"
  shows "pool_inv p'"
proof -
  from s obtain b where w: "w < length (workers p)" and pc: "position p w = InFlight b"
    by (auto simp: settle_def split: if_splits pc.splits)
  then have "batch_id b \<in> in_flight p"
    by (simp add: serving_in_flight serving_def)
  with inv have nq: "batch_id b \<notin> batch_id ` set (queue p)"
    by (auto simp: pool_inv_def)
  have del: "map_keys (AList.delete (batch_id b) (processing p)) \<subseteq> map_keys (processing p)"
    by (rule map_keys_delete)
  show ?thesis
  proof (cases outcome)
    case (Inr res)
    define p1 where "p1 = p\<lparr>processing := AList.delete (batch_id b) (processing p),
        completed := AList.update (batch_id b) (b, res, workerId p w) (completed p)\<rparr>"
    have "in_flight p1 = in_flight p" by (simp add: p1_def in_flight_def)
    with inv nq del have "pool_inv p1"
      by (auto simp: pool_inv_def p1_def recorded_def map_keys_update)
    moreover have "p' = after_batch w p1"
      using s w pc Inr by (simp add: settle_def p1_def)
    ultimately show ?thesis by (simp add: pool_inv_after_batch)
  next
    case (Inl e)
    show ?thesis
    proof (cases e)
      case Undefined
      then have "p' = set_pc w Finished p"
        using s w pc Inl by (simp add: settle_def)
      then show ?thesis using inv by (simp add: pool_inv_idle)
    next
      case (Error msg st)
      define p1 where "p1 = p\<lparr>processing := AList.delete (batch_id b) (processing p),
          failed := AList.update (batch_id b) (b, msg, workerId p w) (failed p)\<rparr>"
      have "in_flight p1 = in_flight p" by (simp add: p1_def in_flight_def)
      with inv nq del have "pool_inv p1"
        by (auto simp: pool_inv_def p1_def recorded_def map_keys_update)
      moreover have "p' = after_batch w p1"
        using s w pc Inl Error by (simp add: settle_def p1_def)
      ultimately show ?thesis by (simp add: pool_inv_after_batch)
    qed
  qed
qed

lemma pool_inv_flags:
  "pool_inv (cancel p) = pool_inv p" "pool_inv (pause p) = pool_inv p"
  "pool_inv (resume p) = pool_inv p"
  by (simp_all add: cancel_def pause_def resume_def pool_inv_def recorded_def in_flight_def)

lemma pool_inv_event:
  assumes "pool_inv p" and "apply_event e p = Some p'"
  shows "pool_inv p'"
proof (cases e)
  case (Step w)
  with assms show ?thesis by (simp add: pool_inv_worker_step)
next
  case (Settle w outcome)
  with assms show ?thesis by (simp add: pool_inv_settle)
next
  case Cancel
  with assms show ?thesis by (auto simp: pool_inv_flags)
next
  case Pause
  with assms show ?thesis by (auto simp: pool_inv_flags)
next
  case Resume
  with assms show ?thesis by (auto simp: pool_inv_flags)
qed

lemma pool_inv_run:
  assumes "run es p = Some p'" and "pool_inv p"
  shows "pool_inv p'"
  using assms
proof (induction es arbitrary: p)
  case Nil
  then show ?case by simp
next
  case (Cons e es)
  then obtain p1 where "apply_event e p = Some p1" and "run es p1 = Some p'"
    by (auto split: option.splits)
  with Cons show ?case using pool_inv_event by blast
qed

lemma in_flight_start: "in_flight (processBatches_start p bs) = in_flight p"
  by (auto simp: in_flight_def processBatches_start_def Let_def image_Un)

lemma start_fields:
  "queue (processBatches_start p bs) = bs"
  "processing (processBatches_start p bs) = []"
  "completed (processBatches_start p bs) = []"
  "failed (processBatches_start p bs) = []"
  "paused (processBatches_start p bs) = False"
  "cancelled (processBatches_start p bs) = False"
  "recorded (processBatches_start p bs) = {}"
  by (simp_all add: processBatches_start_def Let_def recorded_def map_keys_Nil)

lemma pool_inv_start:
  assumes "distinct (map batch_id bs)" and "in_flight p \<inter> batch_id ` set bs = {}"
  shows "pool_inv (processBatches_start p bs)"
  using assms
  by (auto simp: pool_inv_def start_fields in_flight_start map_keys_Nil)

text \<open>Once the flag is set, no event changes the queue or clears the flag.\<close>

lemma after_batch_fields:
  "queue (after_batch w p) = queue p" "cancelled (after_batch w p) = cancelled p"
  "recorded (after_batch w p) = recorded p"
  "completed (after_batch w p) = completed p" "failed (after_batch w p) = failed p"
  "length (workers (after_batch w p)) = length (workers p)"
  by (simp_all add: after_batch_def set_pc_fields recorded_def)

lemma cancelled_event:
  assumes "cancelled p" and "apply_event e p = Some p'"
  shows "cancelled p' \<and> queue p' = queue p"
proof (cases e)
  case (Step w)
  with assms show ?thesis
    by (auto simp: worker_step_def set_pc_fields split: if_splits pc.splits)
next
  case (Settle w outcome)
  with assms show ?thesis
    by (auto simp: settle_def set_pc_fields after_batch_fields
        split: if_splits pc.splits sum.splits error.splits)
next
  case Cancel
  with assms show ?thesis by (auto simp: cancel_def)
next
  case Pause
  with assms show ?thesis by (auto simp: pause_def)
next
  case Resume
  with assms show ?thesis by (auto simp: resume_def)
qed

lemma cancelled_run:
  assumes "run es p = Some p'" and "cancelled p"
  shows "cancelled p' \<and> queue p' = queue p"
  using assms
proof (induction es arbitrary: p)
  case Nil
  then show ?case by simp
next
  case (Cons e es)
  then obtain p1 where e: "apply_event e p = Some p1" and r: "run es p1 = Some p'"
    by (auto split: option.splits)
  from cancelled_event[OF Cons.prems(2) e] Cons.IH[OF r] show ?case by simp
qed

text \<open>
  A batch that a worker is waiting for stays with that worker until its call settles,
  and is then in one of the two result maps for good.
\<close>


lemma recorded_event:
  assumes "apply_event e p = Some p'"
  shows "recorded p \<subseteq> recorded p'"
proof (cases e)
  case (Step w)
  with assms show ?thesis
    by (auto simp: worker_step_def set_pc_fields dequeue_def recorded_def set_pc_def
        split: if_splits pc.splits list.splits)
next
  case (Settle w outcome)
  with assms show ?thesis
    by (auto simp: settle_def set_pc_fields after_batch_fields recorded_def map_keys_update
        split: if_splits pc.splits sum.splits error.splits)
next
  case Cancel
  with assms show ?thesis by (auto simp: cancel_def recorded_def)
next
  case Pause
  with assms show ?thesis by (auto simp: pause_def recorded_def)
next
  case Resume
  with assms show ?thesis by (auto simp: resume_def recorded_def)
qed

lemma settle_records:
  assumes "serving p w b" and "outcome \<noteq> Inl Undefined"
  shows "\<exists>p'. settle w outcome p = Some p' \<and> batch_id b \<in> recorded p'"
proof (cases outcome)
  case (Inr res)
  with assms(1) show ?thesis
    by (simp add: settle_def serving_def after_batch_fields recorded_def map_keys_update)
next
  case (Inl e)
  with assms(2) obtain msg s where "e = Error msg s" by (cases e) auto
  with Inl assms(1) show ?thesis
    by (simp add: settle_def serving_def after_batch_fields recorded_def map_keys_update)
qed

lemma serving_event:
  assumes q: "serving p w b \<or> batch_id b \<in> recorded p"
    and e: "apply_event e p = Some p'"
    and nu: "no_undefined e"
  shows "serving p' w b \<or> batch_id b \<in> recorded p'"
proof (cases "batch_id b \<in> recorded p")
  case True
  with recorded_event[OF e] show ?thesis by auto
next
  case False
  with q have sv: "serving p w b" by simp
  show ?thesis
  proof (cases e)
    case (Step w')
    have "w' \<noteq> w" using sv e Step by (auto simp: worker_step_def serving_def)
    then have "serving p' w b"
      using sv e Step
      by (auto simp: worker_step_def serving_def set_pc_def dequeue_def position_def
          split: if_splits pc.splits list.splits)
    then show ?thesis by simp
  next
    case (Settle w' outcome)
    show ?thesis
    proof (cases "w' = w")
      case True
      from nu Settle have "outcome \<noteq> Inl Undefined"
        by (auto simp: no_undefined_def)
      from settle_records[OF sv this] e Settle True show ?thesis by auto
    next
      case False
      then have "serving p' w b"
        using sv e Settle
        by (auto simp: settle_def serving_def set_pc_def after_batch_def position_def
            split: if_splits pc.splits sum.splits error.splits)
      then show ?thesis by simp
    qed
  next
    case Cancel
    with sv e show ?thesis by (auto simp: cancel_def serving_def position_def)
  next
    case Pause
    with sv e show ?thesis by (auto simp: pause_def serving_def position_def)
  next
    case Resume
    with sv e show ?thesis by (auto simp: resume_def serving_def position_def)
  qed
qed

lemma serving_run:
  assumes "run es p = Some p'" and "serving p w b \<or> batch_id b \<in> recorded p"
    and "\<forall>e\<in>set es. no_undefined e"
  shows "serving p' w b \<or> batch_id b \<in> recorded p'"
  using assms
proof (induction es arbitrary: p)
  case Nil
  then show ?case by simp
next
  case (Cons e es)
  then obtain p1 where e: "apply_event e p = Some p1" and r: "run es p1 = Some p'"
    by (auto split: option.splits)
  from serving_event[OF Cons.prems(2) e] Cons.prems(3)
  have "serving p1 w b \<or> batch_id b \<in> recorded p1" by simp
  from Cons.IH[OF r this] Cons.prems(3) show ?case by simp
qed









text \<open>A successful batch is appended to the completed map; nothing orders the map.\<close>

lemma update_fresh: "k \<notin> map_keys al \<Longrightarrow> AList.update k v al = al @ [(k, v)]"
  unfolding map_keys_def by (induction al) auto

text \<open>The rejections of the client are \<^verbatim>\<open>Error\<close> objects.\<close>

lemma makeRequest_error:
  "makeRequest cfg be model body st = (Inl e, st') \<Longrightarrow> e \<noteq> Undefined"
  by (auto simp: makeRequest_def Let_def split: if_splits fetch_result.splits payload.splits)

lemma attempt_error:
  "attempt cfg be model body retry st = (Thrown e, st') \<Longrightarrow> e \<noteq> Undefined"
  "attempt cfg be model body retry st = (Continue e, st') \<Longrightarrow> e \<noteq> Undefined"
  by (auto simp: attempt_def Let_def split: prod.splits sum.splits if_splits
      dest: makeRequest_error)

lemma callWithRetry_loop_error:
  "callWithRetry_loop cfg be model body retry lastError st = (Inl e, st') \<Longrightarrow>
   retry < maxRetries cfg \<or> lastError \<noteq> Undefined \<Longrightarrow> e \<noteq> Undefined"
proof (induction cfg be model body retry lastError st rule: callWithRetry_loop.induct)
  case (1 cfg be model body retry lastError st)
  show ?case
  proof (cases "retry < maxRetries cfg")
    case False
    with "1.prems" show ?thesis
      by (subst (asm) callWithRetry_loop.simps) auto
  next
    case True
    obtain r st1 where a: "attempt cfg be model body retry st = (r, st1)"
      by (cases "attempt cfg be model body retry st")
    show ?thesis
    proof (cases r)
      case (Returned resp)
      with "1.prems"(1) True a show ?thesis
        by (subst (asm) callWithRetry_loop.simps) simp
    next
      case (Thrown err)
      with "1.prems"(1) True a have "e = err"
        by (subst (asm) callWithRetry_loop.simps) simp
      with attempt_error(1) a Thrown show ?thesis by blast
    next
      case (Continue err)
      with "1.prems"(1) True a
      have l: "callWithRetry_loop cfg be model body (retry + 1) err st1 = (Inl e, st')"
        by (subst (asm) callWithRetry_loop.simps) simp
      have "err \<noteq> Undefined" using attempt_error(2) a Continue by blast
      with "1.IH"[OF True a[symmetric] Continue l] show ?thesis by simp
    qed
  qed
qed

lemma generateContent_error:
  "generateContent cfg be sp prompt i st = (Inl e, st') \<Longrightarrow> 0 < maxRetries cfg \<Longrightarrow>
   e \<noteq> Undefined"
proof (induction cfg be sp prompt i st rule: generateContent.induct)
  case (1 cfg be sp prompt i st)
  show ?case
  proof (cases "\<not> (i < length (models cfg)) \<or> models cfg ! i = []")
    case True
    with "1.prems"(1) show ?thesis
      by (subst (asm) generateContent.simps) auto
  next
    case False
    obtain r st1 where c: "callWithRetry cfg be (models cfg ! i) (buildRequestBody sp prompt) st
        = (r, st1)"
      by (cases "callWithRetry cfg be (models cfg ! i) (buildRequestBody sp prompt) st")
    show ?thesis
    proof (cases r)
      case (Inr resp)
      with "1.prems"(1) False c show ?thesis
        by (subst (asm) generateContent.simps) simp
    next
      case (Inl err)
      have ne: "err \<noteq> Undefined"
        using c Inl "1.prems"(2) callWithRetry_loop_error[of cfg be "models cfg ! i"
            "buildRequestBody sp prompt" 0 Undefined st err st1]
        by (simp add: callWithRetry_def)
      show ?thesis
      proof (cases "i + 1 < length (models cfg)")
        case True
        with "1.prems"(1) False c Inl
        have g: "generateContent cfg be sp prompt (i + 1)
                   (st1\<lparr>trace := trace st1 @ [ModelFailed (models cfg ! i)]\<rparr>) = (Inl e, st')"
          by (subst (asm) generateContent.simps) simp
        from "1.IH"[OF False c[symmetric] Inl True g "1.prems"(2)] show ?thesis .
      next
        case F: False
        with "1.prems"(1) False c Inl have "e = err"
          by (subst (asm) generateContent.simps) simp
        with ne show ?thesis by simp
      qed
    qed
  qed
qed

text \<open>
  Claim C7. Cancellation is cooperative and exact. Take any run of \<open>processBatches\<close> on
  batches with distinct identifiers, none of which is the identifier of a batch that a
  worker of an earlier call is still waiting for (in particular: any run on a processor
  whose earlier workers have all returned), any point of it at which \<open>cancel()\<close> is
  invoked, and any continuation in which no batch call rejects with \<^verbatim>\<open>undefined\<close>. From that point on
  the queue never changes (no worker takes a batch); every batch that was with a worker
  at that point is still with that worker or is in the completed or the failed map, and
  whenever its call settles it is recorded there; and no batch that was in the queue at
  that point is in any map or with any worker.
\<close>

theorem cancel_is_cooperative:
  assumes ids: "distinct (map batch_id bs)"
    and single: "in_flight p0 \<inter> batch_id ` set bs = {}"
    and before: "run es1 (processBatches_start p0 bs) = Some p"
    and after: "run (Cancel # es2) p = Some p'"
    and nu: "list_all no_undefined es2"
  shows "queue p' = queue p
       \<and> (\<forall>b\<in>set (queue p).
            batch_id b \<notin> map_keys (processing p') \<union> recorded p' \<union> in_flight p')
       \<and> (\<forall>w b. serving p w b \<longrightarrow> serving p' w b \<or> batch_id b \<in> recorded p')
       \<and> (\<forall>w b (outcome :: error + response). serving p' w b \<and> outcome \<noteq> Inl Undefined \<longrightarrow>
            (\<exists>p''. run [Settle w outcome] p' = Some p'' \<and> batch_id b \<in> recorded p''))"
proof -
  have inv_p: "pool_inv p"
    using pool_inv_run[OF before pool_inv_start[OF ids single]] .
  from after have r2: "run es2 (cancel p) = Some p'" by simp
  have c: "cancelled (cancel p)" and q: "queue (cancel p) = queue p"
    by (simp_all add: cancel_def)
  from cancelled_run[OF r2 c] q have same: "queue p' = queue p" by simp
  have "pool_inv (cancel p)" using inv_p by (simp add: pool_inv_flags)
  from pool_inv_run[OF r2 this] have inv': "pool_inv p'" .
  have untouched: "\<forall>b\<in>set (queue p).
      batch_id b \<notin> map_keys (processing p') \<union> recorded p' \<union> in_flight p'"
    using inv' same by (auto simp: pool_inv_def)
  have nu': "\<forall>e\<in>set es2. no_undefined e"
    using nu by (simp add: list_all_iff)
  have held: "\<forall>w b. serving p w b \<longrightarrow> serving p' w b \<or> batch_id b \<in> recorded p'"
  proof (intro allI impI)
    fix w b
    assume "serving p w b"
    then have "serving (cancel p) w b \<or> batch_id b \<in> recorded (cancel p)"
      by (simp add: serving_def position_def cancel_def)
    from serving_run[OF r2 this nu'] show "serving p' w b \<or> batch_id b \<in> recorded p'" .
  qed
  have settles: "\<forall>w b outcome. serving p' w b \<and> outcome \<noteq> Inl Undefined \<longrightarrow>
            (\<exists>p''. run [Settle w outcome] p' = Some p'' \<and> batch_id b \<in> recorded p'')"
  proof (intro allI impI)
    fix w b and outcome :: "error + response"
    assume "serving p' w b \<and> outcome \<noteq> Inl Undefined"
    then obtain p'' where "settle w outcome p' = Some p''" "batch_id b \<in> recorded p''"
      using settle_records by blast
    then show "\<exists>p''. run [Settle w outcome] p' = Some p'' \<and> batch_id b \<in> recorded p''"
      by simp
  qed
  from same untouched held settles show ?thesis by blast
qed

lemmas pool_eval =
  processBatches_start_def worker_step_def settle_def dequeue_def set_pc_def after_batch_def
  hasRecentRateLimits_def cancel_def pause_def resume_def workerId_def position_def

lemmas pool_example_defs =
  example_pool_def example_pool_at_cancel_def example_pool_final_def example_batches_def
  example_batch_def example_response_def example_batches_second_def example_pool_overlap_def
  example_pool_alive_def example_old_batches_def

theorem cancel_is_cooperative_witness:
  "distinct (map batch_id example_batches)
   \<and> in_flight example_pool \<inter> batch_id ` set example_batches = {}
   \<and> run [Step 1] (processBatches_start example_pool example_batches)
       = Some example_pool_at_cancel
   \<and> run (Cancel # [Settle 1 (Inr example_response), Step 1]) example_pool_at_cancel
       = Some example_pool_final
   \<and> list_all no_undefined [Settle 1 (Inr example_response), Step 1]
   \<and> serving example_pool_at_cancel 1 (example_batch 1 ''id-1'' ''first'')
   \<and> queue example_pool_final = queue example_pool_at_cancel
   \<and> batch_id (example_batch 1 ''id-1'' ''first'') \<in> recorded example_pool_final
   \<and> batch_id (example_batch 2 ''id-2'' ''second'') \<notin>
        map_keys (processing example_pool_final) \<union> recorded example_pool_final
        \<union> in_flight example_pool_final"
proof -
  have h1: "distinct (map batch_id example_batches)"
    by (simp add: example_batches_def example_batch_def)
  have h0: "in_flight example_pool \<inter> batch_id ` set example_batches = {}"
    by (simp add: in_flight_def example_pool_def)
  have h2: "run [Step 1] (processBatches_start example_pool example_batches)
       = Some example_pool_at_cancel"
    by (simp add: pool_eval pool_example_defs)
  have h3: "run (Cancel # [Settle 1 (Inr example_response), Step 1]) example_pool_at_cancel
       = Some example_pool_final"
    by (simp add: pool_eval pool_example_defs)
  have h4: "list_all no_undefined [Settle 1 (Inr example_response), Step 1]"
    by (simp add: no_undefined_def)
  have sv: "serving example_pool_at_cancel 1 (example_batch 1 ''id-1'' ''first'')"
    by (simp add: serving_def position_def example_pool_at_cancel_def)
  have nsv: "\<not> serving example_pool_final 1 (example_batch 1 ''id-1'' ''first'')"
    by (simp add: serving_def position_def example_pool_final_def)
  have inq: "example_batch 2 ''id-2'' ''second'' \<in> set (queue example_pool_at_cancel)"
    by (simp add: example_pool_at_cancel_def)
  note t = cancel_is_cooperative[OF h1 h0 h2 h3 h4]
  from t have c1: "queue example_pool_final = queue example_pool_at_cancel" by blast
  from t sv nsv have c2: "batch_id (example_batch 1 ''id-1'' ''first'') \<in>
      recorded example_pool_final" by blast
  from t inq have c3: "batch_id (example_batch 2 ''id-2'' ''second'') \<notin>
        map_keys (processing example_pool_final) \<union> recorded example_pool_final
        \<union> in_flight example_pool_final" by blast
  from h1 h0 h2 h3 h4 sv c1 c2 c3 show ?thesis by blast
qed



section \<open>Properties of the text processor\<close>

lemma js_join_Some: "js_join [CHR 10, CHR 10] (map Some xs) = paragraphs xs"
  by (induction xs rule: paragraphs.induct) simp_all

text \<open>
  The loop appends to its two accumulators, one result entry for each batch and one error
  entry for each failed batch, in the order of the batches.
\<close>

lemma process_loop_spec:
  assumes mr: "0 < maxRetries cfg"
  shows "\<exists>rs es st'. process_loop cfg be sp base bs i results errs st =
                        Inr (results @ rs, errs @ es, st')
          \<and> map res_transformedText (filter res_success rs) =
              map Some (successful_outputs (batch_outcomes cfg be sp base bs st))
          \<and> map (\<lambda>e. (berr_batchId e, berr_error e)) es =
              failure_report (batch_outcomes cfg be sp base bs st)
          \<and> map res_batchId rs = map batch_id bs
          \<and> map res_batchNumber rs = [i + 1..<i + 1 + length bs]"
proof (induction bs arbitrary: i results errs st)
  case Nil
  show ?case by simp
next
  case (Cons b bs)
  obtain r st1 where g: "generateContent cfg be sp (buildPrompt base (batch_text b)) 0 st = (r, st1)"
    by (cases "generateContent cfg be sp (buildPrompt base (batch_text b)) 0 st")
  have nums: "[i + 1..<i + 1 + length (b # bs)] = (i + 1) # [i + 1 + 1..<i + 1 + 1 + length bs]"
    by (subst upt_rec) simp
  show ?case
  proof (cases r)
    case (Inr resp)
    define entry where "entry = \<lparr>res_batchId = batch_id b, res_batchNumber = i + 1,
                          res_originalText = batch_text b,
                          res_transformedText = Some (resp_text resp),
                          res_model = Some (resp_model resp),
                          res_error = None, res_success = True\<rparr>"
    from Cons.IH[of "i + 1" "results @ [entry]" errs st1]
    obtain rs es st' where
      l: "process_loop cfg be sp base bs (i + 1) (results @ [entry]) errs st1 =
            Inr ((results @ [entry]) @ rs, errs @ es, st')"
      and t: "map res_transformedText (filter res_success rs) =
              map Some (successful_outputs (batch_outcomes cfg be sp base bs st1))"
      and f: "map (\<lambda>e. (berr_batchId e, berr_error e)) es =
              failure_report (batch_outcomes cfg be sp base bs st1)"
      and ids: "map res_batchId rs = map batch_id bs"
      and ns: "map res_batchNumber rs = [i + 1 + 1..<i + 1 + 1 + length bs]"
      by blast
    have "process_loop cfg be sp base (b # bs) i results errs st =
            Inr (results @ (entry # rs), errs @ es, st')"
      using g Inr l by (simp add: entry_def)
    moreover have "map res_transformedText (filter res_success (entry # rs)) =
              map Some (successful_outputs (batch_outcomes cfg be sp base (b # bs) st))"
      using g Inr t by (simp add: entry_def)
    moreover have "map (\<lambda>e. (berr_batchId e, berr_error e)) es =
              failure_report (batch_outcomes cfg be sp base (b # bs) st)"
      using g Inr f by simp
    moreover have "map res_batchId (entry # rs) = map batch_id (b # bs)"
      using ids by (simp add: entry_def)
    moreover have "map res_batchNumber (entry # rs) = [i + 1..<i + 1 + length (b # bs)]"
      unfolding nums using ns by (simp add: entry_def)
    ultimately show ?thesis by blast
  next
    case (Inl e)
    have "e \<noteq> Undefined"
      using generateContent_error[OF _ mr] g Inl by blast
    then obtain msg s where e: "e = Error msg s" by (cases e) auto
    define entry where "entry = \<lparr>res_batchId = batch_id b, res_batchNumber = i + 1,
                          res_originalText = batch_text b,
                          res_transformedText = None, res_model = None,
                          res_error = Some msg, res_success = False\<rparr>"
    define eentry where "eentry = \<lparr>berr_batchId = batch_id b, berr_batchNumber = i + 1,
                         berr_error = msg, berr_originalText = batch_text b\<rparr>"
    from Cons.IH[of "i + 1" "results @ [entry]" "errs @ [eentry]" st1]
    obtain rs es st' where
      l: "process_loop cfg be sp base bs (i + 1) (results @ [entry]) (errs @ [eentry]) st1 =
            Inr ((results @ [entry]) @ rs, (errs @ [eentry]) @ es, st')"
      and t: "map res_transformedText (filter res_success rs) =
              map Some (successful_outputs (batch_outcomes cfg be sp base bs st1))"
      and f: "map (\<lambda>e. (berr_batchId e, berr_error e)) es =
              failure_report (batch_outcomes cfg be sp base bs st1)"
      and ids: "map res_batchId rs = map batch_id bs"
      and ns: "map res_batchNumber rs = [i + 1 + 1..<i + 1 + 1 + length bs]"
      by blast
    have "process_loop cfg be sp base (b # bs) i results errs st =
            Inr (results @ (entry # rs), errs @ (eentry # es), st')"
      using g Inl e l by (simp add: entry_def eentry_def)
    moreover have "map res_transformedText (filter res_success (entry # rs)) =
              map Some (successful_outputs (batch_outcomes cfg be sp base (b # bs) st))"
      using g Inl t by (simp add: entry_def)
    moreover have "map (\<lambda>e. (berr_batchId e, berr_error e)) (eentry # es) =
              failure_report (batch_outcomes cfg be sp base (b # bs) st)"
      using g Inl e f by (simp add: eentry_def)
    moreover have "map res_batchId (entry # rs) = map batch_id (b # bs)"
      using ids by (simp add: entry_def)
    moreover have "map res_batchNumber (entry # rs) = [i + 1..<i + 1 + length (b # bs)]"
      unfolding nums using ns by (simp add: entry_def)
    ultimately show ?thesis by blast
  qed
qed

lemma process_batches_spec:
  assumes "0 < maxRetries cfg"
  shows "\<exists>r st'. process_batches cfg be sp base tx bs st = Inr (r, st')
          \<and> transformedText r =
              paragraphs (successful_outputs (batch_outcomes cfg be sp base bs st))
          \<and> map (\<lambda>e. (berr_batchId e, berr_error e)) (errors r) =
              failure_report (batch_outcomes cfg be sp base bs st)
          \<and> map res_batchId (batches r) = map batch_id bs
          \<and> map res_batchNumber (batches r) = [1..<1 + length bs]"
proof -
  from process_loop_spec[OF assms, of be sp base bs 0 "[]" "[]" st]
  obtain rs es st' where
    l: "process_loop cfg be sp base bs 0 [] [] st = Inr (rs, es, st')"
    and t: "map res_transformedText (filter res_success rs) =
              map Some (successful_outputs (batch_outcomes cfg be sp base bs st))"
    and f: "map (\<lambda>e. (berr_batchId e, berr_error e)) es =
              failure_report (batch_outcomes cfg be sp base bs st)"
    and ids: "map res_batchId rs = map batch_id bs"
    and ns: "map res_batchNumber rs = [1..<1 + length bs]"
    by auto
  show ?thesis
    using f ids ns by (simp add: process_batches_def l t js_join_Some)
qed

text \<open>
  The concurrent path: a settled call puts its batch behind all entries the map already
  has, whatever the batch's number; \<open>processBatches_results\<close> lists the maps as they are.
\<close>

lemma settle_appends_completed:
  assumes "serving p k c" and "batch_id c \<notin> map_keys (completed p)"
  shows "\<exists>p'. settle k (Inr res) p = Some p'
          \<and> results_completed (processBatches_results p' bs) =
              results_completed (processBatches_results p bs) @ [(c, res, workerId p k)]"
  using assms
  by (simp add: settle_def serving_def after_batch_fields processBatches_results_def
      update_fresh)

lemma settle_appends_failed:
  assumes "serving p k c" and "batch_id c \<notin> map_keys (failed p)"
  shows "\<exists>p'. settle k (Inl (Error msg s)) p = Some p'
          \<and> results_failed (processBatches_results p' bs) =
              results_failed (processBatches_results p bs) @ [(c, msg, workerId p k)]"
  using assms
  by (simp add: settle_def serving_def after_batch_fields processBatches_results_def
      update_fresh)

text \<open>
  Claim C8, as the code has it. \<open>process\<close> of the text processor transforms the
  batches one after the other in submission order, so no other completion order occurs
  there; whenever \<open>createBatches\<close> returns, for every behaviour of the service the
  assembled text is the concatenation, in submission order, of the successful batches'
  outputs joined by a paragraph separator, and a batch without a successful output
  contributes nothing to the text and is listed, with its error text, in the errors list.
  \<open>processBatches\<close> of the batch processor, the path on which batches complete in any
  order, assembles no text: its completed and failed results list the batches in the
  order in which their calls settled, and nothing sorts them by sequence number.
\<close>

theorem assembly_in_order_only_sequentially:
  "(createBatches batchSize overlapSize ids tx = Some bs \<and> 0 < maxRetries cfg \<longrightarrow>
      (\<exists>r st'. process cfg be sp base batchSize overlapSize ids tx st = Some (Inr (r, st'))
          \<and> transformedText r =
              paragraphs (successful_outputs (batch_outcomes cfg be sp base bs st))
          \<and> map (\<lambda>e. (berr_batchId e, berr_error e)) (errors r) =
              failure_report (batch_outcomes cfg be sp base bs st)
          \<and> map res_batchId (batches r) = map batch_id bs
          \<and> map res_batchNumber (batches r) = [1..<1 + length bs]))
   \<and> (serving p k c \<and> batch_id c \<notin> map_keys (completed p) \<longrightarrow>
        (\<exists>p'. run [Settle k (Inr res)] p = Some p'
           \<and> results_completed (processBatches_results p' submitted) =
               results_completed (processBatches_results p submitted) @
               [(c, res, workerId p k)]))
   \<and> (serving p k c \<and> batch_id c \<notin> map_keys (failed p) \<longrightarrow>
        (\<exists>p'. run [Settle k (Inl (Error msg s))] p = Some p'
           \<and> results_failed (processBatches_results p' submitted) =
               results_failed (processBatches_results p submitted) @
               [(c, msg, workerId p k)]))"
proof (intro conjI impI)
  assume a: "createBatches batchSize overlapSize ids tx = Some bs \<and> 0 < maxRetries cfg"
  then have "process cfg be sp base batchSize overlapSize ids tx st =
      Some (process_batches cfg be sp base tx bs st)"
    by (simp add: process_def)
  with process_batches_spec[of cfg be sp base tx bs st] a
  show "\<exists>r st'. process cfg be sp base batchSize overlapSize ids tx st = Some (Inr (r, st'))
          \<and> transformedText r =
              paragraphs (successful_outputs (batch_outcomes cfg be sp base bs st))
          \<and> map (\<lambda>e. (berr_batchId e, berr_error e)) (errors r) =
              failure_report (batch_outcomes cfg be sp base bs st)
          \<and> map res_batchId (batches r) = map batch_id bs
          \<and> map res_batchNumber (batches r) = [1..<1 + length bs]"
    by auto
next
  assume a: "serving p k c \<and> batch_id c \<notin> map_keys (completed p)"
  with settle_appends_completed[of p k c res submitted]
  show "\<exists>p'. run [Settle k (Inr res)] p = Some p'
           \<and> results_completed (processBatches_results p' submitted) =
               results_completed (processBatches_results p submitted) @
               [(c, res, workerId p k)]"
    by auto
next
  assume a: "serving p k c \<and> batch_id c \<notin> map_keys (failed p)"
  with settle_appends_failed[of p k c msg s submitted]
  show "\<exists>p'. run [Settle k (Inl (Error msg s))] p = Some p'
           \<and> results_failed (processBatches_results p' submitted) =
               results_failed (processBatches_results p submitted) @
               [(c, msg, workerId p k)]"
    by auto
qed

lemma example_createBatches:
  "createBatches 2 (- 1) example_ids example_text = Some example_text_batches"
  by (simp add: createBatches_def chunkText_def chunkText_loop.simps Let_def substring_def
      estimateTokenCount_def example_text_def example_ids_def example_text_batches_def
      show_nat.simps upt_rec)

lemma example_outcomes:
  "batch_outcomes example_config backend_mixed ''sys'' ''base'' example_text_batches
     example_state =
     [(example_text_batches ! 0,
       Inr \<lparr>resp_text = ''spoken #0'', resp_model = ''model-a'', resp_finishReason = ''STOP''\<rparr>),
      (example_text_batches ! 1, Inl (Error ''bad request'' (Some 400))),
      (example_text_batches ! 2,
       Inr \<lparr>resp_text = ''spoken #4'', resp_model = ''model-a'', resp_finishReason = ''STOP''\<rparr>)]"
  by (simp add: client_eval example_defs backend_mixed_def buildPrompt_def
      example_text_batches_def)

theorem assembly_in_order_only_sequentially_witness:
  "createBatches 2 (- 1) example_ids example_text = Some example_text_batches
   \<and> 0 < maxRetries example_config
   \<and> (\<exists>r st'. process example_config backend_mixed ''sys'' ''base'' 2 (- 1) example_ids
                 example_text example_state = Some (Inr (r, st'))
        \<and> transformedText r = ''spoken #0'' @ [CHR 10, CHR 10] @ ''spoken #4''
        \<and> map (\<lambda>e. (berr_batchId e, berr_error e)) (errors r) = [(''id-2'', ''bad request'')]
        \<and> map res_batchNumber (batches r) = [1, 2, 3])
   \<and> serving example_pool_at_cancel 1 (example_batch 1 ''id-1'' ''first'')
   \<and> batch_id (example_batch 1 ''id-1'' ''first'') \<notin> map_keys (completed example_pool_at_cancel)
   \<and> batch_id (example_batch 1 ''id-1'' ''first'') \<notin> map_keys (failed example_pool_at_cancel)
   \<and> (\<exists>p'. run [Settle 1 (Inr example_response)] example_pool_at_cancel = Some p'
         \<and> results_completed (processBatches_results p' example_batches) =
             [(example_batch 1 ''id-1'' ''first'', example_response, 0)])
   \<and> (\<exists>p'. run [Settle 1 (Inl (Error ''bad request'' (Some 400)))] example_pool_at_cancel
           = Some p'
         \<and> results_failed (processBatches_results p' example_batches) =
             [(example_batch 1 ''id-1'' ''first'', ''bad request'', 0)])"
proof -
  have h1: "createBatches 2 (- 1) example_ids example_text = Some example_text_batches"
    by (rule example_createBatches)
  have h2: "0 < maxRetries example_config" by (simp add: example_defs)
  have h3: "serving example_pool_at_cancel 1 (example_batch 1 ''id-1'' ''first'')"
    by (simp add: serving_def position_def example_pool_at_cancel_def)
  have h4: "batch_id (example_batch 1 ''id-1'' ''first'') \<notin>
      map_keys (completed example_pool_at_cancel)"
    "batch_id (example_batch 1 ''id-1'' ''first'') \<notin> map_keys (failed example_pool_at_cancel)"
    by (simp_all add: map_keys_def example_pool_at_cancel_def)
  have n: "[1..<1 + length example_text_batches] = [1, 2, 3]"
    by (simp add: example_text_batches_def upt_rec)
  have r0: "results_completed (processBatches_results example_pool_at_cancel example_batches) = []"
    "results_failed (processBatches_results example_pool_at_cancel example_batches) = []"
    "workerId example_pool_at_cancel 1 = 0"
    by (simp_all add: processBatches_results_def workerId_def example_pool_at_cancel_def)
  note t = assembly_in_order_only_sequentially[where batchSize = 2 and overlapSize = "- 1"
      and ids = example_ids and tx = example_text and bs = example_text_batches
      and cfg = example_config and be = backend_mixed and sp = "''sys''" and base = "''base''"
      and st = example_state and p = example_pool_at_cancel and k = 1
      and c = "example_batch 1 ''id-1'' ''first''" and res = example_response
      and submitted = example_batches and msg = "''bad request''" and s = "Some 400"]
  from t h1 h2 have c1: "\<exists>r st'. process example_config backend_mixed ''sys'' ''base'' 2 (- 1)
                 example_ids example_text example_state = Some (Inr (r, st'))
        \<and> transformedText r = ''spoken #0'' @ [CHR 10, CHR 10] @ ''spoken #4''
        \<and> map (\<lambda>e. (berr_batchId e, berr_error e)) (errors r) = [(''id-2'', ''bad request'')]
        \<and> map res_batchNumber (batches r) = [1, 2, 3]"
    unfolding example_outcomes n
    by (auto simp: example_text_batches_def)
  from t h3 h4 have c2: "\<exists>p'. run [Settle 1 (Inr example_response)] example_pool_at_cancel
           = Some p'
         \<and> results_completed (processBatches_results p' example_batches) =
             [(example_batch 1 ''id-1'' ''first'', example_response, 0)]"
    unfolding r0 by auto
  from t h3 h4 have c3: "\<exists>p'. run [Settle 1 (Inl (Error ''bad request'' (Some 400)))]
           example_pool_at_cancel = Some p'
         \<and> results_failed (processBatches_results p' example_batches) =
             [(example_batch 1 ''id-1'' ''first'', ''bad request'', 0)]"
    unfolding r0 by auto
  from h1 h2 c1 h3 h4 c2 c3 show ?thesis by blast
qed

text \<open>
  The claim as stated fails on the concurrent path: three turbo workers take the three
  batches, the calls settle in the order third, second, first, all workers return, and
  the completed results of \<open>processBatches\<close> list the batches as 3, 2, 1.
\<close>

theorem completion_order_counterexample:
  "run [Step 0, Step 1, Step 2, Settle 2 (Inr example_response), Step 2,
        Settle 1 (Inr example_response), Step 1, Settle 0 (Inr example_response), Step 0]
     (processBatches_start (new_processor True 3) example_batches)
     = Some example_pool_reversed
   \<and> all_returned example_pool_reversed
   \<and> map batchNumber example_batches = [1, 2, 3]
   \<and> completed_numbers (processBatches_results example_pool_reversed example_batches)
       = [3, 2, 1]"
  by (simp add: pool_eval pool_example_defs new_processor_def upt_rec
      example_pool_reversed_def all_returned_def completed_numbers_def
      processBatches_results_def)

text \<open>
  With a positive overlap, as the constructor's default has it, \<open>createBatches\<close> does
  not return on a non-empty text, and so neither does \<open>process\<close>.
\<close>

lemma process_never_returns_with_overlap:
  assumes "tx \<noteq> []" and "0 < overlapSize"
  shows "process cfg be sp base batchSize overlapSize ids tx st = None"
  using chunkText_diverges[OF assms, of batchSize]
  by (simp add: process_def createBatches_def)

end
